theory Spec2Isabelle
  imports Main "HOL-Library.Multiset"
begin

section \<open>Dates\<close>

text \<open>
  A JavaScript \<open>Date\<close> is its \<open>getTime()\<close> value: milliseconds since the epoch, an
  integer. Only valid dates reach the scheduling functions (\<open>POST\<close> replaces an invalid
  \<open>scheduled_at\<close> by \<open>null\<close> before it calls them). \<open>setSeconds(0, 0)\<close> clears the
  seconds and milliseconds of the current minute; \<open>setMinutes(getMinutes() + m)\<close> moves
  the date by \<open>m\<close> minutes (the server clock is taken to have no daylight-saving jump).
\<close>

definition setSeconds0 :: "int \<Rightarrow> int" where
  "setSeconds0 t = t - t mod 60000"

definition addMinutes :: "int \<Rightarrow> int \<Rightarrow> int" where
  "addMinutes t m = t + m * 60000"

definition SLOT_INTERVAL_MINUTES :: int where
  "SLOT_INTERVAL_MINUTES = 5"


section \<open>The announcements table and the conflict query\<close>

text \<open>
  \<open>DetailedConflictRecord\<close> of route.ts; the fields carry the prefix \<open>c_\<close>, and
  \<open>c_author_role\<close> is the role of the row's author, which the query joins in from the
  users table. A row of the table has in addition the \<open>status\<close> column that the query
  filters on. Only the columns that the scheduling code reads or writes are kept.
\<close>

record DetailedConflictRecord =
  c_id :: int
  c_title :: "string option"
  c_scheduled_at :: "int option"
  c_priority_level :: "int option"
  c_author_role :: "string option"

record announcement_row = DetailedConflictRecord +
  c_status :: string

definition conflictStatuses :: "string list" where
  "conflictStatuses = [''scheduled'', ''under_review'', ''active'']"

definition inConflictRange :: "int \<Rightarrow> int \<Rightarrow> announcement_row \<Rightarrow> bool" where
  "inConflictRange start end' r =
     (case c_scheduled_at r of
        None \<Rightarrow> False
      | Some t \<Rightarrow> start \<le> t \<and> t < end' \<and> c_status r \<in> set conflictStatuses)"

text \<open>The SELECT of \<open>fetchConflictsForRange\<close>: the rows come in the table's order.\<close>

definition fetchConflictsForRange ::
  "announcement_row list \<Rightarrow> int \<Rightarrow> int \<Rightarrow> DetailedConflictRecord list" where
  "fetchConflictsForRange db start end' =
     map DetailedConflictRecord.truncate (filter (inConflictRange start end') db)"


section \<open>Slot Finder: findNextAvailableScheduleSlot\<close>

record ScheduleResolutionResult =
  scheduledAt :: int
  autoAdjusted :: bool

record ScheduleAdjustment =
  adj_id :: int
  newTime :: int

record ReflowResult = ScheduleResolutionResult +
  adjustments :: "ScheduleAdjustment list"

datatype error = BadRequestError string

definition maxIterations :: nat where
  "maxIterations = 180"

definition exhaustedMessage :: string where
  "exhaustedMessage = ''Unable to automatically find an available time slot within the next 3 hours. Please choose a different scheduled time.''"

text \<open>
  The \<open>for\<close> loop of \<open>findNextAvailableScheduleSlot\<close>; the last argument is the number
  of iterations left, \<open>maxIterations - i\<close>.
\<close>

fun slotLoop ::
  "announcement_row list \<Rightarrow> int \<Rightarrow> int \<Rightarrow> nat \<Rightarrow> error + ScheduleResolutionResult" where
  "slotLoop db normalizedDesired candidate 0 = Inl (BadRequestError exhaustedMessage)"
| "slotLoop db normalizedDesired candidate (Suc n) =
     (let minuteStart = candidate;
          minuteEnd = addMinutes minuteStart SLOT_INTERVAL_MINUTES;
          conflicts = fetchConflictsForRange db minuteStart minuteEnd
      in if conflicts = []
         then Inr \<lparr>scheduledAt = minuteStart,
                   autoAdjusted = (minuteStart \<noteq> normalizedDesired)\<rparr>
         else slotLoop db normalizedDesired minuteEnd n)"

definition findNextAvailableScheduleSlot ::
  "announcement_row list \<Rightarrow> int \<Rightarrow> error + ScheduleResolutionResult" where
  "findNextAvailableScheduleSlot db desiredDate =
     (let normalizedDesired = setSeconds0 desiredDate
      in slotLoop db normalizedDesired normalizedDesired maxIterations)"


section \<open>Priority clamp of POST\<close>

text \<open>
  \<open>Math.max(0, Math.min(3, priority_level ?? 3))\<close>, the body field being absent
  (\<open>undefined\<close>, which the destructuring default turns into 3, or \<open>null\<close>) or a number.
\<close>

definition validPriorityLevel :: "int option \<Rightarrow> int" where
  "validPriorityLevel priority_level =
     max 0 (min 3 (case priority_level of None \<Rightarrow> 3 | Some p \<Rightarrow> p))"


section \<open>Roles (announcementUtils.ts)\<close>

datatype UserRole = student | student_admin | admin | super_admin

definition roleMapping :: "(string \<times> UserRole) list" where
  "roleMapping =
     [(''user'', student), (''student'', student), (''student_admin'', student_admin),
      (''admin'', admin), (''super_admin'', super_admin)]"

text \<open>
  \<open>normalizeUserRole\<close> of announcementUtils.ts. \<open>!role\<close> holds for \<open>undefined\<close> and for
  the empty string; \<open>isAdmin\<close> is truthy only when it is \<open>true\<close>. The lookup is in the
  five keys of the table.
\<close>

definition normalizeUserRole :: "string option \<Rightarrow> bool option \<Rightarrow> UserRole" where
  "normalizeUserRole role isAdmin =
     (let fallback = (if isAdmin = Some True then admin else student)
      in case role of
           None \<Rightarrow> fallback
         | Some r \<Rightarrow>
             if r = [] then fallback
             else (case map_of roleMapping r of Some u \<Rightarrow> u | None \<Rightarrow> fallback))"

definition hasAdminAccess :: "UserRole \<Rightarrow> bool" where
  "hasAdminAccess userRole = (userRole \<in> set [admin, student_admin, super_admin])"

fun getAnnouncementPriority :: "UserRole \<Rightarrow> int" where
  "getAnnouncementPriority student = 1"
| "getAnnouncementPriority student_admin = 2"
| "getAnnouncementPriority admin = 3"
| "getAnnouncementPriority super_admin = 4"


section \<open>Array.prototype.sort\<close>

text \<open>
  \<open>sort\<close> is the JavaScript engine's. ECMAScript requires it to be stable; the
  comparator returns a number, and a negative result puts its first argument first.
  The model is an insertion sort: an element goes before the first element of the
  sorted rest that does not have to precede it, so elements that compare equal keep
  their order. For a comparator that is antisymmetric and transitive on the elements
  of the list every stable sort returns the same list (\<open>stable_sorted_by_unique\<close>
  below); for any other comparator ECMAScript leaves the order to the engine.
\<close>

fun insert_sorted :: "('a \<Rightarrow> 'a \<Rightarrow> int) \<Rightarrow> 'a \<Rightarrow> 'a list \<Rightarrow> 'a list" where
  "insert_sorted cmp x [] = [x]"
| "insert_sorted cmp x (y # ys) =
     (if cmp x y \<le> 0 then x # y # ys else y # insert_sorted cmp x ys)"

fun array_sort :: "('a \<Rightarrow> 'a \<Rightarrow> int) \<Rightarrow> 'a list \<Rightarrow> 'a list" where
  "array_sort cmp [] = []"
| "array_sort cmp (x # xs) = insert_sorted cmp x (array_sort cmp xs)"

text \<open>
  A second stable sort, the insertion sort that walks the array from the left and moves
  each element down past the elements that have to follow it. The list argument of
  \<open>insert_last\<close> is the sorted prefix, reversed.
\<close>

fun insert_last :: "('a \<Rightarrow> 'a \<Rightarrow> int) \<Rightarrow> 'a \<Rightarrow> 'a list \<Rightarrow> 'a list" where
  "insert_last cmp x [] = [x]"
| "insert_last cmp x (y # ys) =
     (if cmp y x > 0 then y # insert_last cmp x ys else x # y # ys)"

definition array_sort_left :: "('a \<Rightarrow> 'a \<Rightarrow> int) \<Rightarrow> 'a list \<Rightarrow> 'a list" where
  "array_sort_left cmp xs = rev (foldl (\<lambda>acc x. insert_last cmp x acc) [] xs)"

text \<open>
  What a stable sort by a comparator has to return: a rearrangement of the input, in
  which no element has to follow a later one, and in which the elements that compare
  equal to a given one are in their input order.
\<close>

definition stable_sorted_by :: "('a \<Rightarrow> 'a \<Rightarrow> int) \<Rightarrow> 'a list \<Rightarrow> 'a list \<Rightarrow> bool" where
  "stable_sorted_by cmp xs ys \<longleftrightarrow>
     mset ys = mset xs \<and>
     sorted_wrt (\<lambda>a b. cmp a b \<le> 0) ys \<and>
     (\<forall>k \<in> set xs. filter (\<lambda>x. cmp k x = 0) ys = filter (\<lambda>x. cmp k x = 0) xs)"

definition transitive_on :: "('a \<Rightarrow> 'a \<Rightarrow> int) \<Rightarrow> 'a list \<Rightarrow> bool" where
  "transitive_on cmp xs \<longleftrightarrow>
     (\<forall>a \<in> set xs. \<forall>b \<in> set xs. \<forall>c \<in> set xs. cmp a b \<le> 0 \<and> cmp b c \<le> 0 \<longrightarrow> cmp a c \<le> 0)"

text \<open>Swapping the arguments of a comparator changes the sign of its result.\<close>

definition antisymmetric :: "('a \<Rightarrow> 'a \<Rightarrow> int) \<Rightarrow> bool" where
  "antisymmetric cmp \<longleftrightarrow> (\<forall>a b. cmp b a = - cmp a b)"


section \<open>Target years of POST: normalizeTargetYears\<close>

text \<open>
  The entries of the submitted \<open>target_years\<close> array: a number that is an integer, any
  other number, a string, or anything else. \<open>parseInt\<close> is the engine's and is a
  parameter; it returns \<open>None\<close> for \<open>NaN\<close>. A value that is falsy or not an array is
  \<open>None\<close>. \<open>entryYear\<close> is the \<open>map\<close> with the \<open>null\<close> and \<open>Number.isInteger\<close> filters;
  \<open>rev (remdups (rev xs))\<close> keeps the first occurrence of each element, as the \<open>Set\<close>
  does.
\<close>

datatype target_entry = NumberEntry int | NonIntegerEntry | StringEntry string | OtherEntry

definition entryYear :: "(string \<Rightarrow> int option) \<Rightarrow> target_entry \<Rightarrow> int option" where
  "entryYear parseInt entry =
     (case entry of
        StringEntry s \<Rightarrow> parseInt s
      | NumberEntry n \<Rightarrow> Some n
      | NonIntegerEntry \<Rightarrow> None
      | OtherEntry \<Rightarrow> None)"

definition normalizeTargetYears ::
  "(string \<Rightarrow> int option) \<Rightarrow> target_entry list option \<Rightarrow> int list option" where
  "normalizeTargetYears parseInt value =
     (case value of
        None \<Rightarrow> None
      | Some entries \<Rightarrow>
          (let normalized =
                 array_sort (\<lambda>a b. a - b)
                   (rev (remdups (rev
                      (filter (\<lambda>year. year \<ge> 1 \<and> year \<le> 99)
                         (List.map_filter (entryYear parseInt) entries)))))
           in if length normalized > 0 then Some normalized else None))"


section \<open>Priority Reflow Engine: reflowSchedulesForSuperAdmin\<close>

text \<open>The entries of \<open>records\<close>; \<open>r_id = None\<close> is the \<open>id: null\<close> of the new announcement.\<close>

record reflow_record =
  r_id :: "int option"
  priorityLevel :: int
  rolePriority :: int
  r_scheduledAt :: "int option"

text \<open>
  route.ts imports \<open>normalizeUserRole\<close> from \<open>@/lib/utils/roleUtils\<close>, a module that is
  not among the sources: the function is the parameter \<open>normalizeRole\<close>.
\<close>

definition conflictRecord ::
  "(string option \<Rightarrow> bool option \<Rightarrow> UserRole) \<Rightarrow> DetailedConflictRecord \<Rightarrow> reflow_record" where
  "conflictRecord normalizeRole conflict =
     \<lparr>r_id = Some (c_id conflict),
      priorityLevel = (case c_priority_level conflict of None \<Rightarrow> 3 | Some p \<Rightarrow> p),
      rolePriority = getAnnouncementPriority (normalizeRole (c_author_role conflict) None),
      r_scheduledAt = c_scheduled_at conflict\<rparr>"

definition newRecord :: "int \<Rightarrow> int \<Rightarrow> UserRole \<Rightarrow> reflow_record" where
  "newRecord normalizedDesired newAnnouncementPriority userRole =
     \<lparr>r_id = None,
      priorityLevel = newAnnouncementPriority,
      rolePriority = getAnnouncementPriority userRole,
      r_scheduledAt = Some normalizedDesired\<rparr>"

definition reflowRecords ::
  "(string option \<Rightarrow> bool option \<Rightarrow> UserRole) \<Rightarrow> DetailedConflictRecord list \<Rightarrow> int \<Rightarrow> int \<Rightarrow>
   UserRole \<Rightarrow> reflow_record list" where
  "reflowRecords normalizeRole conflicts normalizedDesired newAnnouncementPriority userRole =
     map (conflictRecord normalizeRole) conflicts @
     [newRecord normalizedDesired newAnnouncementPriority userRole]"

definition reflowCompare :: "reflow_record \<Rightarrow> reflow_record \<Rightarrow> int" where
  "reflowCompare a b =
     (if priorityLevel a \<noteq> priorityLevel b then priorityLevel a - priorityLevel b
      else rolePriority b - rolePriority a)"

text \<open>
  The \<open>for (const record of records)\<close> loop, with its three variables \<open>cursor\<close>,
  \<open>assignedNewAnnouncementTime\<close> and \<open>adjustments\<close>.
\<close>

fun reflowLoop ::
  "reflow_record list \<Rightarrow> int \<Rightarrow> int \<Rightarrow> ScheduleAdjustment list \<Rightarrow> int \<times> ScheduleAdjustment list" where
  "reflowLoop [] cursor assignedNewAnnouncementTime adjs = (assignedNewAnnouncementTime, adjs)"
| "reflowLoop (record # records) cursor assignedNewAnnouncementTime adjs =
     (case r_id record of
        None \<Rightarrow> reflowLoop records (addMinutes cursor SLOT_INTERVAL_MINUTES) cursor adjs
      | Some i \<Rightarrow>
          if r_scheduledAt record = None \<or> r_scheduledAt record \<noteq> Some cursor
          then reflowLoop records (addMinutes cursor SLOT_INTERVAL_MINUTES)
                 assignedNewAnnouncementTime (adjs @ [\<lparr>adj_id = i, newTime = cursor\<rparr>])
          else reflowLoop records (addMinutes cursor SLOT_INTERVAL_MINUTES)
                 assignedNewAnnouncementTime adjs)"

definition reflowSchedulesForSuperAdmin ::
  "(string option \<Rightarrow> bool option \<Rightarrow> UserRole) \<Rightarrow> announcement_row list \<Rightarrow> int \<Rightarrow> int \<Rightarrow>
   UserRole \<Rightarrow> ReflowResult" where
  "reflowSchedulesForSuperAdmin normalizeRole db desiredDate newAnnouncementPriority userRole =
     (let normalizedDesired = setSeconds0 desiredDate;
          windowEnd = addMinutes normalizedDesired SLOT_INTERVAL_MINUTES;
          conflicts = fetchConflictsForRange db normalizedDesired windowEnd
      in if length conflicts = 0
         then \<lparr>scheduledAt = normalizedDesired,
               autoAdjusted = (normalizedDesired \<noteq> setSeconds0 desiredDate),
               adjustments = []\<rparr>
         else
           (let records = array_sort reflowCompare
                  (reflowRecords normalizeRole conflicts normalizedDesired
                     newAnnouncementPriority userRole);
                cursor = setSeconds0 normalizedDesired;
                (assignedNewAnnouncementTime, adjs) = reflowLoop records cursor cursor []
            in \<lparr>scheduledAt = assignedNewAnnouncementTime,
                autoAdjusted = (assignedNewAnnouncementTime \<noteq> normalizedDesired \<or> length adjs > 0),
                adjustments = adjs\<rparr>))"

text \<open>
  The window that the loop gives to the entry at position \<open>k\<close> of the sorted list: the
  value of \<open>cursor\<close> in iteration \<open>k\<close>.
\<close>

definition windowAt :: "int \<Rightarrow> nat \<Rightarrow> int" where
  "windowAt normalizedDesired k = normalizedDesired + int k * 300000"

definition assignedWindows :: "int \<Rightarrow> reflow_record list \<Rightarrow> (reflow_record \<times> int) list" where
  "assignedWindows normalizedDesired records =
     zip records (map (windowAt normalizedDesired) [0..<length records])"

text \<open>The adjustments that a list of entries with their windows calls for.\<close>

definition adjustmentsOf :: "(reflow_record \<times> int) list \<Rightarrow> ScheduleAdjustment list" where
  "adjustmentsOf rws =
     concat (map (\<lambda>(r, w). case r_id r of
                               None \<Rightarrow> []
                             | Some i \<Rightarrow> if r_scheduledAt r \<noteq> Some w
                                         then [\<lparr>adj_id = i, newTime = w\<rparr>] else []) rws)"

text \<open>The position of the new announcement, the entry without an id, in a list of entries.\<close>

definition positionOfNew :: "reflow_record list \<Rightarrow> nat" where
  "positionOfNew records = length (takeWhile (\<lambda>r. r_id r \<noteq> None) records)"


section \<open>The scheduling step of POST\<close>

text \<open>\<open>applyScheduleAdjustments\<close>: one UPDATE by id for each adjustment, in order.\<close>

definition applyScheduleAdjustment ::
  "announcement_row list \<Rightarrow> ScheduleAdjustment \<Rightarrow> announcement_row list" where
  "applyScheduleAdjustment db adjustment =
     map (\<lambda>r. if c_id r = adj_id adjustment
               then r\<lparr>c_scheduled_at := Some (newTime adjustment)\<rparr> else r) db"

definition applyScheduleAdjustments ::
  "announcement_row list \<Rightarrow> ScheduleAdjustment list \<Rightarrow> announcement_row list" where
  "applyScheduleAdjustments db adjs = foldl applyScheduleAdjustment db adjs"

record schedule_outcome =
  resolvedScheduledDate :: int
  autoRescheduled :: bool
  pendingScheduleAdjustments :: "ScheduleAdjustment list"

text \<open>
  Lines 105 to 121 of \<open>POST\<close> for a request with a \<open>scheduledDate\<close>: the branch on the
  role of the submitter.
\<close>

definition resolveSchedule ::
  "(string option \<Rightarrow> bool option \<Rightarrow> UserRole) \<Rightarrow> announcement_row list \<Rightarrow> int \<Rightarrow> int \<Rightarrow>
   UserRole \<Rightarrow> error + schedule_outcome" where
  "resolveSchedule normalizeRole db scheduledDate validPriority userRole =
     (if userRole = super_admin
      then (let reflowResult =
                  reflowSchedulesForSuperAdmin normalizeRole db scheduledDate validPriority userRole
            in Inr \<lparr>resolvedScheduledDate = scheduledAt reflowResult,
                    autoRescheduled = autoAdjusted reflowResult,
                    pendingScheduleAdjustments = adjustments reflowResult\<rparr>)
      else (case findNextAvailableScheduleSlot db scheduledDate of
              Inl e \<Rightarrow> Inl e
            | Inr scheduleResult \<Rightarrow>
                Inr \<lparr>resolvedScheduledDate = scheduledAt scheduleResult,
                     autoRescheduled = autoAdjusted scheduleResult,
                     pendingScheduleAdjustments = []\<rparr>))"

text \<open>
  The scheduling step of \<open>POST\<close> on the rows that were in the table before the
  request: the pending adjustments are written when there are any. When the Slot
  Finder throws, the handler answers with the error and has written nothing.
\<close>

definition schedulingStep ::
  "(string option \<Rightarrow> bool option \<Rightarrow> UserRole) \<Rightarrow> announcement_row list \<Rightarrow> int \<Rightarrow> int \<Rightarrow>
   UserRole \<Rightarrow> announcement_row list \<times> (error + schedule_outcome)" where
  "schedulingStep normalizeRole db scheduledDate validPriority userRole =
     (case resolveSchedule normalizeRole db scheduledDate validPriority userRole of
        Inl e \<Rightarrow> (db, Inl e)
      | Inr outcome \<Rightarrow>
          if length (pendingScheduleAdjustments outcome) > 0
          then (applyScheduleAdjustments db (pendingScheduleAdjustments outcome), Inr outcome)
          else (db, Inr outcome))"


section \<open>Announcements as the client sees them (announcementUtils.ts)\<close>

text \<open>
  The fields of \<open>Announcement\<close> that the two functions read. Dates are parsed
  timestamps; an absent or empty field is \<open>None\<close>. \<open>ann_id\<close> is the field \<open>id\<close>.
\<close>

record Announcement =
  ann_id :: "int option"
  category :: string
  status :: string
  is_emergency :: bool
  priority_level :: "int option"
  created_at :: "int option"
  priority_until :: "int option"
  scheduled_at :: "int option"
  target_years :: "int list option"

subsection \<open>Visibility Gate: isVisibleToUser\<close>

text \<open>\<open>toLowerCase\<close> on ASCII text: the 26 capital letters are mapped, nothing else.\<close>

definition toLowerChar :: "char \<Rightarrow> char" where
  "toLowerChar c =
     (case map_of (zip ''ABCDEFGHIJKLMNOPQRSTUVWXYZ'' ''abcdefghijklmnopqrstuvwxyz'') c of
        None \<Rightarrow> c
      | Some l \<Rightarrow> l)"

definition toLowerCase :: "string \<Rightarrow> string" where
  "toLowerCase s = map toLowerChar s"

text \<open>
  \<open>now\<close> is the \<open>new Date()\<close> that the function reads. \<open>isSuperAdmin\<close> is falsy when
  absent. \<open>!studentIntakeCode\<close> holds for \<open>null\<close>, \<open>undefined\<close> and the number 0.
\<close>

definition isVisibleToUser ::
  "int \<Rightarrow> Announcement \<Rightarrow> UserRole \<Rightarrow> bool option \<Rightarrow> int option \<Rightarrow> bool \<Rightarrow> int option \<Rightarrow> bool" where
  "isVisibleToUser now announcement userRole isAdmin userId isSuperAdmin studentIntakeCode =
     (let hasAdminLevel = hasAdminAccess userRole
      in if \<not> hasAdminLevel \<and> \<not> isSuperAdmin
         then
           if status announcement = ''scheduled'' then False
           else if category announcement \<noteq> [] \<and>
                   toLowerCase (category announcement) = ''scheduled'' then False
           else if (case scheduled_at announcement of
                      None \<Rightarrow> False | Some scheduledDate \<Rightarrow> scheduledDate > now) then False
           else (case target_years announcement of
                   None \<Rightarrow> True
                 | Some targetYears \<Rightarrow>
                     if length targetYears > 0
                     then (case studentIntakeCode of
                             None \<Rightarrow> False
                           | Some code \<Rightarrow>
                               if code = 0 \<or> code \<notin> set targetYears then False else True)
                     else True)
         else True)"

subsection \<open>Presentation Ordering: sortAnnouncementsByPriority\<close>

definition SAME_TIME_THRESHOLD :: int where
  "SAME_TIME_THRESHOLD = 1000"

definition hasPriority :: "int \<Rightarrow> Announcement \<Rightarrow> bool" where
  "hasPriority now a =
     (case priority_until a of None \<Rightarrow> False | Some u \<Rightarrow> u > now \<and> status a = ''urgent'')"

text \<open>
  The comparator that \<open>sortAnnouncementsByPriority\<close> passes to \<open>sort\<close>. It reads the
  clock (\<open>new Date()\<close>) in each call; \<open>now\<close> is that reading, the same for every
  comparison of one sort.
\<close>

definition compareAnnouncements :: "int \<Rightarrow> Announcement \<Rightarrow> Announcement \<Rightarrow> int" where
  "compareAnnouncements now a b =
     (if is_emergency a \<and> \<not> is_emergency b then - 1
      else if \<not> is_emergency a \<and> is_emergency b then 1
      else
        (let aPriorityNum = (case priority_level a of None \<Rightarrow> 3 | Some p \<Rightarrow> p);
             bPriorityNum = (case priority_level b of None \<Rightarrow> 3 | Some p \<Rightarrow> p);
             aDate = (case created_at a of None \<Rightarrow> 0 | Some t \<Rightarrow> t);
             bDate = (case created_at b of None \<Rightarrow> 0 | Some t \<Rightarrow> t);
             timeDiff = \<bar>aDate - bDate\<bar>
         in if timeDiff \<le> SAME_TIME_THRESHOLD
            then (if aPriorityNum \<noteq> bPriorityNum then aPriorityNum - bPriorityNum
                  else (case ann_id b of None \<Rightarrow> 0 | Some i \<Rightarrow> i) -
                       (case ann_id a of None \<Rightarrow> 0 | Some i \<Rightarrow> i))
            else if aPriorityNum \<noteq> bPriorityNum then aPriorityNum - bPriorityNum
            else
              (let aHasPriority = hasPriority now a;
                   bHasPriority = hasPriority now b
               in if aHasPriority \<and> \<not> bHasPriority then - 1
                  else if \<not> aHasPriority \<and> bHasPriority then 1
                  else bDate - aDate)))"

text \<open>
  The engine's \<open>sort\<close> is modelled by \<open>array_sort\<close>. The two agree on every list on
  which the comparator is transitive and on every list of at most two items: there
  the stable sorted arrangement is unique. On a list on which the comparator is cyclic
  the order is the engine's own; the theorems below use the model on no such list.
\<close>

definition sortAnnouncementsByPriority ::
  "int \<Rightarrow> Announcement list \<Rightarrow> UserRole \<Rightarrow> Announcement list" where
  "sortAnnouncementsByPriority now announcements userRole =
     array_sort (compareAnnouncements now) announcements"


text \<open>The three values that the comparator reads with a default.\<close>

definition priorityNum :: "Announcement \<Rightarrow> int" where
  "priorityNum a = (case priority_level a of None \<Rightarrow> 3 | Some p \<Rightarrow> p)"

definition createdTime :: "Announcement \<Rightarrow> int" where
  "createdTime a = (case created_at a of None \<Rightarrow> 0 | Some t \<Rightarrow> t)"

definition idNum :: "Announcement \<Rightarrow> int" where
  "idNum a = (case ann_id a of None \<Rightarrow> 0 | Some i \<Rightarrow> i)"


section \<open>Occupied windows and example data\<close>

text \<open>Window \<open>k\<close> after \<open>normalizedDesired\<close> is occupied when the conflict query finds a row in it.\<close>

definition windowOccupied :: "announcement_row list \<Rightarrow> int \<Rightarrow> nat \<Rightarrow> bool" where
  "windowOccupied db normalizedDesired k =
     (fetchConflictsForRange db (normalizedDesired + int k * 300000)
        (normalizedDesired + int k * 300000 + 300000) \<noteq> [])"

text \<open>A table with one active row at the start of each of the first \<open>n\<close> windows after time 0.\<close>

definition busyRow :: "nat \<Rightarrow> announcement_row" where
  "busyRow k =
     \<lparr>c_id = int k + 1, c_title = None, c_scheduled_at = Some (int k * 300000),
      c_priority_level = None, c_author_role = None, c_status = ''active''\<rparr>"

definition busyTable :: "nat \<Rightarrow> announcement_row list" where
  "busyTable n = map busyRow [0..<n]"

definition oneRow :: announcement_row where
  "oneRow =
     \<lparr>c_id = 7, c_title = None, c_scheduled_at = Some 120000,
      c_priority_level = Some 3, c_author_role = Some ''admin'', c_status = ''scheduled''\<rparr>"

definition plainItem :: Announcement where
  "plainItem =
     \<lparr>ann_id = Some 1, category = ''general'', status = ''active'', is_emergency = False,
      priority_level = None, created_at = None, priority_until = None, scheduled_at = None,
      target_years = None\<rparr>"


text \<open>
  Tables for the reflow: one conflicting row at 10:00 (36000000 ms) with priority 3, one
  with priority 0, and a table with three conflicting rows in the window from 10:00,
  one row in the next window and one row whose status is outside the conflict query.
\<close>

definition rowX :: announcement_row where
  "rowX =
     \<lparr>c_id = 21, c_title = None, c_scheduled_at = Some 36000000,
      c_priority_level = Some 3, c_author_role = Some ''super_admin'', c_status = ''scheduled''\<rparr>"

definition rowY :: announcement_row where
  "rowY =
     \<lparr>c_id = 22, c_title = None, c_scheduled_at = Some 36000000,
      c_priority_level = Some 0, c_author_role = Some ''super_admin'', c_status = ''active''\<rparr>"

definition conflictX :: DetailedConflictRecord where
  "conflictX =
     \<lparr>c_id = 21, c_title = None, c_scheduled_at = Some 36000000,
      c_priority_level = Some 3, c_author_role = Some ''super_admin''\<rparr>"

definition reflowTable :: "announcement_row list" where
  "reflowTable =
     [\<lparr>c_id = 11, c_title = None, c_scheduled_at = Some 36000000,
       c_priority_level = Some 3, c_author_role = Some ''admin'', c_status = ''scheduled''\<rparr>,
      \<lparr>c_id = 12, c_title = None, c_scheduled_at = Some 36060000,
       c_priority_level = Some 1, c_author_role = Some ''student'', c_status = ''active''\<rparr>,
      \<lparr>c_id = 13, c_title = None, c_scheduled_at = Some 36120000,
       c_priority_level = Some 1, c_author_role = Some ''super_admin'', c_status = ''under_review''\<rparr>,
      \<lparr>c_id = 14, c_title = None, c_scheduled_at = Some 36300000,
       c_priority_level = Some 0, c_author_role = Some ''admin'', c_status = ''scheduled''\<rparr>,
      \<lparr>c_id = 15, c_title = None, c_scheduled_at = Some 36000000,
       c_priority_level = Some 0, c_author_role = Some ''admin'', c_status = ''urgent''\<rparr>]"


text \<open>
  Announcements for the ordering: three items of priority 1 created 800 ms apart with
  ascending ids, the first of them urgent with a priority window until 99999 ms; two
  items that differ in their category only; an emergency item; and two items created
  500 ms apart.
\<close>

definition cycP :: Announcement where
  "cycP = plainItem\<lparr>ann_id := Some 1, status := ''urgent'', priority_level := Some 1,
     created_at := Some 0, priority_until := Some 99999\<rparr>"

definition cycQ :: Announcement where
  "cycQ = plainItem\<lparr>ann_id := Some 2, priority_level := Some 1, created_at := Some 800\<rparr>"

definition cycR :: Announcement where
  "cycR = plainItem\<lparr>ann_id := Some 3, priority_level := Some 1, created_at := Some 1600\<rparr>"

definition tiedA :: Announcement where
  "tiedA = plainItem\<lparr>ann_id := None, category := ''exams''\<rparr>"

definition tiedB :: Announcement where
  "tiedB = plainItem\<lparr>ann_id := None, category := ''sports''\<rparr>"

definition alertE :: Announcement where
  "alertE = plainItem\<lparr>ann_id := Some 9, is_emergency := True, created_at := Some 5000\<rparr>"

text \<open>An item whose target list is what \<open>normalizeTargetYears\<close> stores for 25, 0, 23, 2.5, 25.\<close>

definition targetedItem :: Announcement where
  "targetedItem =
     plainItem\<lparr>target_years :=
       normalizeTargetYears (\<lambda>s. None)
         (Some [NumberEntry 25, NumberEntry 0, NumberEntry 23, NonIntegerEntry, NumberEntry 25])\<rparr>"

definition scenarioA :: Announcement where
  "scenarioA = plainItem\<lparr>ann_id := Some 1, priority_level := Some 1, created_at := Some 1000000\<rparr>"

definition scenarioB :: Announcement where
  "scenarioB = plainItem\<lparr>ann_id := Some 2, priority_level := Some 1, created_at := Some 1000500\<rparr>"


section \<open>Theorems\<close>

subsection \<open>Slot Finder\<close>

lemma setSeconds0_gt: "t - 60000 < setSeconds0 t"
proof -
  have "t mod 60000 < 60000" by simp
  then show ?thesis unfolding setSeconds0_def by linarith
qed

lemma slotLoop_flag:
  "slotLoop db nd c n = Inr r \<Longrightarrow> autoAdjusted r = (scheduledAt r \<noteq> nd)"
  by (induction n arbitrary: c) (auto simp: Let_def split: if_splits)

lemma slotLoop_forward:
  "slotLoop db nd c n = Inr r \<Longrightarrow> \<exists>k<n. scheduledAt r = c + int k * 300000"
proof (induction n arbitrary: c)
  case 0
  then show ?case by simp
next
  case (Suc n)
  show ?case
  proof (cases "fetchConflictsForRange db c (addMinutes c SLOT_INTERVAL_MINUTES) = []")
    case True
    with Suc.prems have "scheduledAt r = c" by (auto simp: Let_def)
    then show ?thesis by (intro exI [of _ 0]) simp
  next
    case False
    with Suc.prems have "slotLoop db nd (addMinutes c SLOT_INTERVAL_MINUTES) n = Inr r"
      by (simp add: Let_def)
    from Suc.IH [OF this] obtain k where "k < n"
      and "scheduledAt r = addMinutes c SLOT_INTERVAL_MINUTES + int k * 300000" by blast
    then show ?thesis
      by (intro exI [of _ "Suc k"]) (simp add: addMinutes_def SLOT_INTERVAL_MINUTES_def)
  qed
qed

lemma slotLoop_free:
  "0 < n \<Longrightarrow> fetchConflictsForRange db c (addMinutes c SLOT_INTERVAL_MINUTES) = [] \<Longrightarrow>
   slotLoop db nd c n = Inr \<lparr>scheduledAt = c, autoAdjusted = (c \<noteq> nd)\<rparr>"
  by (cases n) (simp_all add: Let_def)

text \<open>
  The search fails exactly when every one of the \<open>n\<close> windows it may probe is occupied;
  \<open>findNextAvailableScheduleSlot\<close> runs it with \<open>n = maxIterations = 180\<close>.
\<close>

lemma slotLoop_exhausted_iff:
  "(\<exists>e. slotLoop db nd c n = Inl e) \<longleftrightarrow> (\<forall>k<n. windowOccupied db c k)"
proof (induction n arbitrary: c)
  case 0
  show ?case by simp
next
  case (Suc n)
  have shift: "windowOccupied db (addMinutes c SLOT_INTERVAL_MINUTES) k = windowOccupied db c (Suc k)" for k
    by (simp add: windowOccupied_def addMinutes_def SLOT_INTERVAL_MINUTES_def algebra_simps)
  have first: "windowOccupied db c 0 \<longleftrightarrow>
      fetchConflictsForRange db c (addMinutes c SLOT_INTERVAL_MINUTES) \<noteq> []"
    by (simp add: windowOccupied_def addMinutes_def SLOT_INTERVAL_MINUTES_def)
  have "(\<forall>k<Suc n. windowOccupied db c k) \<longleftrightarrow>
        windowOccupied db c 0 \<and> (\<forall>k<n. windowOccupied db c (Suc k))"
    by (auto simp: less_Suc_eq_0_disj)
  then show ?case
    using Suc.IH [of "addMinutes c SLOT_INTERVAL_MINUTES"]
    by (simp add: Let_def shift first)
qed

lemma findNextAvailableScheduleSlot_fails_iff:
  "(\<exists>e. findNextAvailableScheduleSlot db desiredDate = Inl e) \<longleftrightarrow>
   (\<forall>k<180. windowOccupied db (setSeconds0 desiredDate) k)"
  unfolding findNextAvailableScheduleSlot_def Let_def
  by (simp add: slotLoop_exhausted_iff maxIterations_def)

text \<open>
  Claim C2: the Slot Finder probes at most 36 windows and fails if and only if all 36
  are occupied. Evaluated on a table whose first 36 windows after the desired time 0
  are all occupied: the loop, bounded by 180 iterations of 5 minutes each, goes on to
  the 37th window, three hours after the desired time, and returns it.
\<close>

theorem slot_finder_probes_past_36_windows:
  "length (filter (windowOccupied (busyTable 36) (setSeconds0 0)) [0..<36]) = 36 \<and>
   findNextAvailableScheduleSlot (busyTable 36) 0 =
     Inr \<lparr>scheduledAt = 10800000, autoAdjusted = True\<rparr>"
  by code_simp

text \<open>
  Claim C3, as stated: \<open>autoAdjusted\<close> tells whether the assigned time differs from the
  raw requested time. For the request 00:00:30 on an empty table the assigned time is
  00:00:00, which differs from the request, and the flag is false.
\<close>

theorem slot_autoAdjusted_raw_counterexample:
  "findNextAvailableScheduleSlot [] 30000 = Inr \<lparr>scheduledAt = 0, autoAdjusted = False\<rparr> \<and>
   scheduledAt \<lparr>scheduledAt = 0, autoAdjusted = False\<rparr> \<noteq> 30000"
  by code_simp

text \<open>
  Claim C3, amended: when the Slot Finder succeeds, \<open>autoAdjusted\<close> is true if and only
  if the assigned time differs from the minute-truncated desired time; and when the
  window at the truncated desired time has no conflict, the result is that truncated
  time with \<open>autoAdjusted = False\<close>.
\<close>

theorem slot_autoAdjusted_truncated:
  "(findNextAvailableScheduleSlot db desiredDate = Inr r \<longrightarrow>
      (autoAdjusted r \<longleftrightarrow> scheduledAt r \<noteq> setSeconds0 desiredDate)) \<and>
   (fetchConflictsForRange db (setSeconds0 desiredDate)
      (addMinutes (setSeconds0 desiredDate) SLOT_INTERVAL_MINUTES) = [] \<longrightarrow>
    findNextAvailableScheduleSlot db desiredDate =
      Inr \<lparr>scheduledAt = setSeconds0 desiredDate, autoAdjusted = False\<rparr>)"
proof (intro conjI impI)
  assume "findNextAvailableScheduleSlot db desiredDate = Inr r"
  then show "autoAdjusted r \<longleftrightarrow> scheduledAt r \<noteq> setSeconds0 desiredDate"
    by (simp add: findNextAvailableScheduleSlot_def Let_def slotLoop_flag)
next
  assume "fetchConflictsForRange db (setSeconds0 desiredDate)
      (addMinutes (setSeconds0 desiredDate) SLOT_INTERVAL_MINUTES) = []"
  then show "findNextAvailableScheduleSlot db desiredDate =
      Inr \<lparr>scheduledAt = setSeconds0 desiredDate, autoAdjusted = False\<rparr>"
    by (simp add: findNextAvailableScheduleSlot_def Let_def slotLoop_free maxIterations_def)
qed

theorem slot_autoAdjusted_truncated_witness:
  "findNextAvailableScheduleSlot [oneRow] 150000 = Inr \<lparr>scheduledAt = 420000, autoAdjusted = True\<rparr> \<and>
   (autoAdjusted \<lparr>scheduledAt = 420000, autoAdjusted = True\<rparr> \<longleftrightarrow>
      scheduledAt \<lparr>scheduledAt = 420000, autoAdjusted = True\<rparr> \<noteq> setSeconds0 150000) \<and>
   fetchConflictsForRange [oneRow] (setSeconds0 450000)
      (addMinutes (setSeconds0 450000) SLOT_INTERVAL_MINUTES) = [] \<and>
   findNextAvailableScheduleSlot [oneRow] 450000 =
      Inr \<lparr>scheduledAt = setSeconds0 450000, autoAdjusted = False\<rparr>"
proof -
  have a: "findNextAvailableScheduleSlot [oneRow] 150000 = Inr \<lparr>scheduledAt = 420000, autoAdjusted = True\<rparr>"
    by code_simp
  have b: "fetchConflictsForRange [oneRow] (setSeconds0 450000)
      (addMinutes (setSeconds0 450000) SLOT_INTERVAL_MINUTES) = []"
    by code_simp
  show ?thesis
    using a b slot_autoAdjusted_truncated [of "[oneRow]" 150000 "\<lparr>scheduledAt = 420000, autoAdjusted = True\<rparr>"]
      slot_autoAdjusted_truncated [of "[oneRow]" 450000]
    by blast
qed

text \<open>
  Claim C5, as stated: the Slot Finder never assigns a time earlier than the requested
  one. For the request 00:01:30 on an empty table it assigns 00:01:00.
\<close>

theorem slot_finder_earlier_than_raw_counterexample:
  "findNextAvailableScheduleSlot [] 90000 = Inr \<lparr>scheduledAt = 60000, autoAdjusted = False\<rparr> \<and>
   scheduledAt \<lparr>scheduledAt = 60000, autoAdjusted = False\<rparr> < 90000"
  by code_simp

text \<open>
  Claim C5, amended: for a submitter who is not super_admin the scheduling step leaves
  every existing row as it was, whether the Slot Finder succeeds or not; when it
  succeeds there is no pending adjustment, and the assigned time is the truncated
  desired time plus a whole number (below 180) of 5-minute windows, so it is never
  earlier than the minute-truncated desired time, and less than one minute earlier
  than the raw one.
\<close>

theorem slot_finder_frame_forward:
  assumes "userRole \<noteq> super_admin"
  shows "fst (schedulingStep normalizeRole db desiredDate p userRole) = db \<and>
         snd (schedulingStep normalizeRole db desiredDate p userRole) =
           resolveSchedule normalizeRole db desiredDate p userRole \<and>
         (resolveSchedule normalizeRole db desiredDate p userRole = Inr out \<longrightarrow>
            pendingScheduleAdjustments out = [] \<and>
            findNextAvailableScheduleSlot db desiredDate =
              Inr \<lparr>scheduledAt = resolvedScheduledDate out, autoAdjusted = autoRescheduled out\<rparr> \<and>
            setSeconds0 desiredDate \<le> resolvedScheduledDate out \<and>
            desiredDate - 60000 < resolvedScheduledDate out \<and>
            (\<exists>k<maxIterations.
               resolvedScheduledDate out = setSeconds0 desiredDate + int k * 300000))"
proof (intro conjI impI)
  show "fst (schedulingStep normalizeRole db desiredDate p userRole) = db"
    using assms by (auto simp: schedulingStep_def resolveSchedule_def split: sum.splits)
  show "snd (schedulingStep normalizeRole db desiredDate p userRole) =
           resolveSchedule normalizeRole db desiredDate p userRole"
    by (auto simp: schedulingStep_def split: sum.splits)
next
  assume ok: "resolveSchedule normalizeRole db desiredDate p userRole = Inr out"
  with assms obtain r where r: "findNextAvailableScheduleSlot db desiredDate = Inr r"
    and out: "out = \<lparr>resolvedScheduledDate = scheduledAt r, autoRescheduled = autoAdjusted r,
                     pendingScheduleAdjustments = []\<rparr>"
    by (auto simp: resolveSchedule_def split: sum.splits)
  from r obtain k where k: "k < maxIterations"
    "scheduledAt r = setSeconds0 desiredDate + int k * 300000"
    using slotLoop_forward [of db "setSeconds0 desiredDate" "setSeconds0 desiredDate" maxIterations r]
    by (auto simp: findNextAvailableScheduleSlot_def Let_def)
  show "pendingScheduleAdjustments out = []" by (simp add: out)
  show "findNextAvailableScheduleSlot db desiredDate =
          Inr \<lparr>scheduledAt = resolvedScheduledDate out, autoAdjusted = autoRescheduled out\<rparr>"
    by (simp add: r out)
  show "setSeconds0 desiredDate \<le> resolvedScheduledDate out"
    using k(2) by (simp add: out)
  show "desiredDate - 60000 < resolvedScheduledDate out"
    using k(2) setSeconds0_gt [of desiredDate] by (simp add: out)
  show "\<exists>k<maxIterations. resolvedScheduledDate out = setSeconds0 desiredDate + int k * 300000"
    using k by (auto simp: out)
qed

theorem slot_finder_frame_forward_witness:
  "admin \<noteq> super_admin \<and>
   resolveSchedule normalizeUserRole [oneRow] 150000 3 admin =
     Inr \<lparr>resolvedScheduledDate = 420000, autoRescheduled = True, pendingScheduleAdjustments = []\<rparr> \<and>
   fst (schedulingStep normalizeUserRole [oneRow] 150000 3 admin) = [oneRow] \<and>
   setSeconds0 150000 \<le> (420000 :: int) \<and> 150000 - 60000 < (420000 :: int)"
proof -
  have a: "admin \<noteq> super_admin" by simp
  have b: "resolveSchedule normalizeUserRole [oneRow] 150000 3 admin =
     Inr \<lparr>resolvedScheduledDate = 420000, autoRescheduled = True, pendingScheduleAdjustments = []\<rparr>"
    by code_simp
  show ?thesis
    using a b slot_finder_frame_forward [OF a, of normalizeUserRole "[oneRow]" 150000 3
        "\<lparr>resolvedScheduledDate = 420000, autoRescheduled = True, pendingScheduleAdjustments = []\<rparr>"]
    by simp
qed

subsection \<open>Priority clamp\<close>

text \<open>
  Claim C9: the priority level that the scheduling code uses is the submitted one
  clamped into 0..3: below 0 gives 0, above 3 gives 3, a value in the range is kept,
  and an absent value gives 3.
\<close>

theorem validPriorityLevel_clamps:
  "validPriorityLevel None = 3 \<and>
   (p < 0 \<longrightarrow> validPriorityLevel (Some p) = 0) \<and>
   (3 < p \<longrightarrow> validPriorityLevel (Some p) = 3) \<and>
   (0 \<le> p \<and> p \<le> 3 \<longrightarrow> validPriorityLevel (Some p) = p) \<and>
   0 \<le> validPriorityLevel q \<and> validPriorityLevel q \<le> 3"
  by (auto simp: validPriorityLevel_def split: option.splits)

theorem validPriorityLevel_clamps_witness:
  "validPriorityLevel (Some (- 2)) = 0 \<and> validPriorityLevel (Some 7) = 3 \<and>
   validPriorityLevel (Some 2) = 2 \<and> validPriorityLevel None = 3"
  using validPriorityLevel_clamps [of "- 2"] validPriorityLevel_clamps [of 7]
    validPriorityLevel_clamps [of 2]
  by simp

subsection \<open>Stable sorting by a comparator\<close>

lemma mset_insert_sorted: "mset (insert_sorted cmp x ys) = add_mset x (mset ys)"
  by (induction ys) auto

lemma mset_array_sort: "mset (array_sort cmp xs) = mset xs"
  by (induction xs) (auto simp: mset_insert_sorted)

lemma set_insert_sorted: "set (insert_sorted cmp x ys) = insert x (set ys)"
  by (induction ys) auto

lemma set_array_sort: "set (array_sort cmp xs) = set xs"
  by (induction xs) (auto simp: set_insert_sorted)

lemma length_insert_sorted: "length (insert_sorted cmp x ys) = Suc (length ys)"
  by (induction ys) auto

lemma length_array_sort: "length (array_sort cmp xs) = length xs"
  by (induction xs) (auto simp: length_insert_sorted)

lemma antisymmetric_flip: "antisymmetric cmp \<Longrightarrow> cmp b a = - cmp a b"
  unfolding antisymmetric_def by blast

lemma antisymmetric_refl: "antisymmetric cmp \<Longrightarrow> cmp a a = 0"
  using antisymmetric_flip [of cmp a a] by linarith

lemma transitive_onD:
  "transitive_on cmp us \<Longrightarrow> a \<in> set us \<Longrightarrow> b \<in> set us \<Longrightarrow> c \<in> set us \<Longrightarrow>
   cmp a b \<le> 0 \<Longrightarrow> cmp b c \<le> 0 \<Longrightarrow> cmp a c \<le> 0"
  unfolding transitive_on_def by blast

lemma sorted_insert_sorted:
  assumes anti: "antisymmetric cmp" and trans: "transitive_on cmp us"
    and "x \<in> set us" and "set ys \<subseteq> set us"
    and "sorted_wrt (\<lambda>a b. cmp a b \<le> 0) ys"
  shows "sorted_wrt (\<lambda>a b. cmp a b \<le> 0) (insert_sorted cmp x ys)"
  using assms(3-)
proof (induction ys)
  case Nil
  then show ?case by simp
next
  case (Cons y ys)
  show ?case
  proof (cases "cmp x y \<le> 0")
    case True
    have "cmp x z \<le> 0" if "z \<in> set ys" for z
    proof -
      from Cons.prems that have "cmp y z \<le> 0" by simp
      with True show ?thesis
        using transitive_onD [OF trans, of x y z] Cons.prems that by auto
    qed
    with True Cons.prems show ?thesis by simp
  next
    case False
    then have "cmp y x \<le> 0" using antisymmetric_flip [OF anti, of y x] by simp
    with False Cons show ?thesis by (auto simp: set_insert_sorted)
  qed
qed

lemma filter_insert_sorted:
  assumes anti: "antisymmetric cmp" and trans: "transitive_on cmp us"
    and "k \<in> set us" and "x \<in> set us" and "set ys \<subseteq> set us"
  shows "filter (\<lambda>y. cmp k y = 0) (insert_sorted cmp x ys) =
         filter (\<lambda>y. cmp k y = 0) (x # ys)"
  using assms(5)
proof (induction ys)
  case Nil
  then show ?case by simp
next
  case (Cons y ys)
  show ?case
  proof (cases "cmp x y \<le> 0")
    case True
    then show ?thesis by simp
  next
    case False
    have "\<not> (cmp k x = 0 \<and> cmp k y = 0)"
    proof
      assume h: "cmp k x = 0 \<and> cmp k y = 0"
      then have "cmp x k \<le> 0" using antisymmetric_flip [OF anti, of x k] by simp
      moreover from h have "cmp k y \<le> 0" by simp
      ultimately have "cmp x y \<le> 0"
        using transitive_onD [OF trans, of x k y] assms(3,4) Cons.prems by simp
      with False show False by simp
    qed
    with False Cons show ?thesis by auto
  qed
qed

lemma array_sort_sorted:
  assumes anti: "antisymmetric cmp" and trans: "transitive_on cmp us"
    and "set xs \<subseteq> set us"
  shows "sorted_wrt (\<lambda>a b. cmp a b \<le> 0) (array_sort cmp xs)"
  using assms(3)
proof (induction xs)
  case Nil
  show ?case by simp
next
  case (Cons x xs)
  then have "sorted_wrt (\<lambda>a b. cmp a b \<le> 0) (array_sort cmp xs)" by simp
  moreover have "x \<in> set us" "set (array_sort cmp xs) \<subseteq> set us"
    using Cons.prems by (simp_all add: set_array_sort)
  ultimately show ?case
    using sorted_insert_sorted [OF anti trans, of x "array_sort cmp xs"] by simp
qed

lemma array_sort_stable:
  assumes anti: "antisymmetric cmp" and trans: "transitive_on cmp us"
    and "k \<in> set us" and "set xs \<subseteq> set us"
  shows "filter (\<lambda>y. cmp k y = 0) (array_sort cmp xs) = filter (\<lambda>y. cmp k y = 0) xs"
  using assms(4)
proof (induction xs)
  case Nil
  show ?case by simp
next
  case (Cons x xs)
  have "filter (\<lambda>y. cmp k y = 0) (insert_sorted cmp x (array_sort cmp xs)) =
        filter (\<lambda>y. cmp k y = 0) (x # array_sort cmp xs)"
    using filter_insert_sorted [OF anti trans assms(3), of x "array_sort cmp xs"] Cons.prems
    by (simp add: set_array_sort)
  with Cons show ?case by simp
qed

lemma array_sort_stable_sorted_by:
  assumes anti: "antisymmetric cmp" and trans: "transitive_on cmp xs"
  shows "stable_sorted_by cmp xs (array_sort cmp xs)"
  unfolding stable_sorted_by_def
  using array_sort_sorted [OF anti trans, of xs] array_sort_stable [OF anti trans, of _ xs]
  by (simp add: mset_array_sort)

lemma stable_sorted_unique_aux:
  assumes anti: "antisymmetric cmp"
  shows "mset ys = mset zs \<Longrightarrow> sorted_wrt (\<lambda>a b. cmp a b \<le> 0) ys \<Longrightarrow>
         sorted_wrt (\<lambda>a b. cmp a b \<le> 0) zs \<Longrightarrow>
         (\<forall>k \<in> set ys. filter (\<lambda>x. cmp k x = 0) ys = filter (\<lambda>x. cmp k x = 0) zs) \<Longrightarrow>
         ys = zs"
proof (induction ys arbitrary: zs)
  case Nil
  then show ?case by simp
next
  case (Cons y ys)
  from Cons.prems(1) obtain z zs' where zs: "zs = z # zs'" by (cases zs) auto
  note refl = antisymmetric_refl [OF anti]
  have yz: "y \<in> set zs" using Cons.prems(1) by (metis list.set_intros(1) set_mset_mset)
  have zy: "z \<in> set (y # ys)" using Cons.prems(1) zs by (metis list.set_intros(1) set_mset_mset)
  have "cmp y z \<le> 0" using zy Cons.prems(2) refl by auto
  moreover have "cmp z y \<le> 0" using yz zs Cons.prems(3) refl by auto
  ultimately have tie: "cmp y z = 0" using antisymmetric_flip [OF anti, of y z] by simp
  from Cons.prems(4) have "filter (\<lambda>x. cmp y x = 0) (y # ys) = filter (\<lambda>x. cmp y x = 0) zs"
    by simp
  then have "y = z" using tie refl zs by simp
  have tails: "\<forall>k \<in> set ys. filter (\<lambda>x. cmp k x = 0) ys = filter (\<lambda>x. cmp k x = 0) zs'"
  proof
    fix k assume "k \<in> set ys"
    with Cons.prems(4) have "filter (\<lambda>x. cmp k x = 0) (y # ys) = filter (\<lambda>x. cmp k x = 0) (y # zs')"
      using zs \<open>y = z\<close> by simp
    then show "filter (\<lambda>x. cmp k x = 0) ys = filter (\<lambda>x. cmp k x = 0) zs'"
      by (simp split: if_splits)
  qed
  have "ys = zs'"
    using Cons.IH [of zs'] Cons.prems zs \<open>y = z\<close> tails by simp
  with zs \<open>y = z\<close> show ?case by simp
qed

lemma stable_sorted_by_unique:
  assumes anti: "antisymmetric cmp"
    and "stable_sorted_by cmp xs ys" and "stable_sorted_by cmp xs zs"
  shows "ys = zs"
proof -
  have "set ys = set xs" using assms(2) unfolding stable_sorted_by_def by (metis set_mset_mset)
  then show ?thesis
    using assms(2,3) stable_sorted_unique_aux [OF anti, of ys zs]
    unfolding stable_sorted_by_def by simp
qed

lemma insert_last_flip: "insert_last cmp x ys = insert_sorted (\<lambda>a b. cmp b a) x ys"
proof (induction ys)
  case Nil
  show ?case by simp
next
  case (Cons y ys)
  then show ?case by (simp add: not_le)
qed

lemma foldl_insert_rev:
  "foldl (\<lambda>acc x. insert_sorted c x acc) [] xs = array_sort c (rev xs)"
proof (induction xs rule: rev_induct)
  case Nil
  show ?case by simp
next
  case (snoc x xs)
  then show ?case by simp
qed

lemma array_sort_left_flip:
  "array_sort_left cmp xs = rev (array_sort (\<lambda>a b. cmp b a) (rev xs))"
proof -
  have "(\<lambda>acc x. insert_last cmp x acc) = (\<lambda>acc x. insert_sorted (\<lambda>a b. cmp b a) x acc)"
    by (intro ext) (rule insert_last_flip)
  then show ?thesis
    unfolding array_sort_left_def by (simp only: foldl_insert_rev)
qed

lemma array_sort_left_stable_sorted_by:
  assumes anti: "antisymmetric cmp" and "transitive_on cmp xs"
  shows "stable_sorted_by cmp xs (array_sort_left cmp xs)"
proof -
  let ?c = "\<lambda>a b. cmp b a"
  let ?A = "array_sort ?c (rev xs)"
  have anti': "antisymmetric ?c" using anti unfolding antisymmetric_def by blast
  have "transitive_on ?c (rev xs)"
    unfolding transitive_on_def
  proof (intro ballI impI)
    fix a b c
    assume "a \<in> set (rev xs)" "b \<in> set (rev xs)" "c \<in> set (rev xs)"
      and "cmp b a \<le> 0 \<and> cmp c b \<le> 0"
    then show "cmp c a \<le> 0"
      using transitive_onD [OF assms(2), of c b a] by simp
  qed
  from array_sort_stable_sorted_by [OF anti' this]
  have s: "stable_sorted_by ?c (rev xs) ?A" .
  have tie: "(\<lambda>x. cmp x k = 0) = (\<lambda>x. cmp k x = 0)" for k
  proof (intro ext)
    fix x show "(cmp x k = 0) = (cmp k x = 0)"
      using antisymmetric_flip [OF anti, of k x] by linarith
  qed
  have m: "mset (rev ?A) = mset xs"
    using s unfolding stable_sorted_by_def by simp
  have o: "sorted_wrt (\<lambda>a b. cmp a b \<le> 0) (rev ?A)"
    using s unfolding stable_sorted_by_def by (simp add: sorted_wrt_rev)
  have f: "filter (\<lambda>x. cmp k x = 0) (rev ?A) = filter (\<lambda>x. cmp k x = 0) xs"
    if "k \<in> set xs" for k
  proof -
    from s that have "filter (\<lambda>x. cmp x k = 0) ?A = filter (\<lambda>x. cmp x k = 0) (rev xs)"
      unfolding stable_sorted_by_def by simp
    then have "filter (\<lambda>x. cmp k x = 0) ?A = filter (\<lambda>x. cmp k x = 0) (rev xs)"
      by (simp only: tie)
    then have "rev (filter (\<lambda>x. cmp k x = 0) ?A) = rev (filter (\<lambda>x. cmp k x = 0) (rev xs))"
      by simp
    then show ?thesis by (simp only: rev_filter rev_rev_ident)
  qed
  show ?thesis
    unfolding stable_sorted_by_def array_sort_left_flip
  proof (intro conjI ballI)
    show "mset (rev ?A) = mset xs" by (rule m)
    show "sorted_wrt (\<lambda>a b. cmp a b \<le> 0) (rev ?A)" by (rule o)
    show "filter (\<lambda>x. cmp k x = 0) (rev ?A) = filter (\<lambda>x. cmp k x = 0) xs"
      if "k \<in> set xs" for k using that by (rule f)
  qed
qed

subsection \<open>Visibility Gate\<close>

lemma hasAdminAccess_simps [simp]:
  "hasAdminAccess student = False" "hasAdminAccess student_admin = True"
  "hasAdminAccess admin = True" "hasAdminAccess super_admin = True"
  by (simp_all add: hasAdminAccess_def)

lemma toLowerCase_scheduled_nonempty: "toLowerCase s = ''scheduled'' \<Longrightarrow> s \<noteq> []"
  by (auto simp: toLowerCase_def)

lemma normalizeTargetYears_range:
  assumes "normalizeTargetYears parseInt v = Some ty"
  shows "ty \<noteq> [] \<and> (\<forall>y \<in> set ty. 1 \<le> y \<and> y \<le> 99) \<and> 0 \<notin> set ty"
proof (cases v)
  case None
  with assms show ?thesis by (simp add: normalizeTargetYears_def)
next
  case (Some entries)
  define n where "n = array_sort (\<lambda>a b. a - b)
                   (rev (remdups (rev
                      (filter (\<lambda>year. year \<ge> 1 \<and> year \<le> 99)
                         (List.map_filter (entryYear parseInt) entries)))))"
  have "normalizeTargetYears parseInt v = (if length n > 0 then Some n else None)"
    by (simp add: normalizeTargetYears_def Some n_def Let_def)
  with assms have ty: "ty = n" "n \<noteq> []"
    by (simp_all split: if_splits)
  have "set n \<subseteq> {y. 1 \<le> y \<and> y \<le> 99}"
    unfolding n_def set_array_sort by auto
  then have r: "\<forall>y \<in> set ty. 1 \<le> y \<and> y \<le> 99" unfolding ty(1) by blast
  then have "0 \<notin> set ty" by fastforce
  with ty r show ?thesis by blast
qed

lemma isVisibleToUser_iff:
  "isVisibleToUser now a userRole isAdmin userId isSuperAdmin code \<longleftrightarrow>
      hasAdminAccess userRole \<or> isSuperAdmin \<or>
      \<not> (status a = ''scheduled'' \<or>
         toLowerCase (category a) = ''scheduled'' \<or>
         (case scheduled_at a of None \<Rightarrow> False | Some t \<Rightarrow> now < t) \<or>
         (case target_years a of
            None \<Rightarrow> False
          | Some ty \<Rightarrow> ty \<noteq> [] \<and>
              (case code of None \<Rightarrow> True | Some c \<Rightarrow> c = 0 \<or> c \<notin> set ty)))"
  using toLowerCase_scheduled_nonempty [of "category a"]
  by (auto simp: isVisibleToUser_def Let_def split: option.splits)

text \<open>
  Claim C7: viewers with admin access (or the super-admin flag) always pass; any other
  viewer is denied exactly when the status is scheduled, or the category is
  "scheduled" in any case, or the scheduled time is set and in the future, or the
  target list is non-empty and the viewer's intake code is absent or not in the list.
  In particular a scheduled item is denied whatever its scheduled time, and intake
  code 24 is denied an item that targets [23, 25]. This is for the items whose target
  list does not contain 0: target codes are the codes 1 to 99 that
  \<open>normalizeTargetYears\<close> stores (\<open>normalizeTargetYears_range\<close>).
\<close>

theorem visibility_gate:
  assumes "\<forall>ty. target_years a = Some ty \<longrightarrow> 0 \<notin> set ty"
  shows
  "(isVisibleToUser now a userRole isAdmin userId isSuperAdmin code \<longleftrightarrow>
      hasAdminAccess userRole \<or> isSuperAdmin \<or>
      \<not> (status a = ''scheduled'' \<or>
         toLowerCase (category a) = ''scheduled'' \<or>
         (case scheduled_at a of None \<Rightarrow> False | Some t \<Rightarrow> now < t) \<or>
         (case target_years a of
            None \<Rightarrow> False
          | Some ty \<Rightarrow> ty \<noteq> [] \<and>
              (case code of None \<Rightarrow> True | Some c \<Rightarrow> c \<notin> set ty)))) \<and>
   (hasAdminAccess userRole \<or> isSuperAdmin \<longrightarrow>
      isVisibleToUser now a userRole isAdmin userId isSuperAdmin code) \<and>
   (\<not> hasAdminAccess userRole \<and> \<not> isSuperAdmin \<and> status a = ''scheduled'' \<longrightarrow>
      \<not> isVisibleToUser now a userRole isAdmin userId isSuperAdmin code) \<and>
   (\<not> hasAdminAccess userRole \<and> \<not> isSuperAdmin \<and> target_years a = Some [23, 25] \<longrightarrow>
      \<not> isVisibleToUser now a userRole isAdmin userId isSuperAdmin (Some 24))"
proof (intro conjI)
  have z: "(case code of None \<Rightarrow> True | Some c \<Rightarrow> c = 0 \<or> c \<notin> set ty) =
           (case code of None \<Rightarrow> True | Some c \<Rightarrow> c \<notin> set ty)"
    if "target_years a = Some ty" for ty
  proof (cases code)
    case None
    then show ?thesis by simp
  next
    case (Some c)
    from assms that have "0 \<notin> set ty" by blast
    then have "c = 0 \<or> c \<notin> set ty \<longleftrightarrow> c \<notin> set ty" by blast
    with Some show ?thesis by simp
  qed
  show "isVisibleToUser now a userRole isAdmin userId isSuperAdmin code \<longleftrightarrow>
      hasAdminAccess userRole \<or> isSuperAdmin \<or>
      \<not> (status a = ''scheduled'' \<or>
         toLowerCase (category a) = ''scheduled'' \<or>
         (case scheduled_at a of None \<Rightarrow> False | Some t \<Rightarrow> now < t) \<or>
         (case target_years a of
            None \<Rightarrow> False
          | Some ty \<Rightarrow> ty \<noteq> [] \<and>
              (case code of None \<Rightarrow> True | Some c \<Rightarrow> c \<notin> set ty)))"
    unfolding isVisibleToUser_iff
    by (cases "target_years a") (simp_all add: z)
  show "hasAdminAccess userRole \<or> isSuperAdmin \<longrightarrow>
      isVisibleToUser now a userRole isAdmin userId isSuperAdmin code"
    by (simp add: isVisibleToUser_iff)
  show "\<not> hasAdminAccess userRole \<and> \<not> isSuperAdmin \<and> status a = ''scheduled'' \<longrightarrow>
      \<not> isVisibleToUser now a userRole isAdmin userId isSuperAdmin code"
    by (simp add: isVisibleToUser_iff)
  show "\<not> hasAdminAccess userRole \<and> \<not> isSuperAdmin \<and> target_years a = Some [23, 25] \<longrightarrow>
      \<not> isVisibleToUser now a userRole isAdmin userId isSuperAdmin (Some 24)"
    by (simp add: isVisibleToUser_iff)
qed

theorem visibility_gate_witness:
  "isVisibleToUser 1000 (plainItem\<lparr>category := ''Scheduled''\<rparr>) admin None None False None \<and>
   \<not> isVisibleToUser 1000 (plainItem\<lparr>category := ''Scheduled''\<rparr>) student None None False None \<and>
   target_years targetedItem = Some [23, 25] \<and>
   isVisibleToUser 1000 targetedItem student None None False (Some 25) \<and>
   \<not> isVisibleToUser 1000 targetedItem student None None False (Some 24) \<and>
   \<not> isVisibleToUser 1000 targetedItem student None None False None \<and>
   \<not> isVisibleToUser 1000 (plainItem\<lparr>status := ''scheduled'', scheduled_at := Some 500\<rparr>)
       student None None False (Some 24) \<and>
   isVisibleToUser 1000 (plainItem\<lparr>scheduled_at := Some 500\<rparr>) student None None False None"
proof -
  have t: "target_years targetedItem = Some [23, 25]" by code_simp
  have h1: "\<forall>ty. target_years (plainItem\<lparr>category := ''Scheduled''\<rparr>) = Some ty \<longrightarrow> 0 \<notin> set ty"
    by (simp add: plainItem_def)
  have h2: "\<forall>ty. target_years targetedItem = Some ty \<longrightarrow> 0 \<notin> set ty"
    using normalizeTargetYears_range
    by (simp add: targetedItem_def)
  have h3: "\<forall>ty. target_years (plainItem\<lparr>status := ''scheduled'', scheduled_at := Some 500\<rparr>) =
      Some ty \<longrightarrow> 0 \<notin> set ty"
    by (simp add: plainItem_def)
  have h4: "\<forall>ty. target_years (plainItem\<lparr>scheduled_at := Some 500\<rparr>) = Some ty \<longrightarrow> 0 \<notin> set ty"
    by (simp add: plainItem_def)
  note G = visibility_gate [THEN conjunct1]
  have f1: "status (plainItem\<lparr>category := ''Scheduled''\<rparr>) = ''active''"
    "toLowerCase (category (plainItem\<lparr>category := ''Scheduled''\<rparr>)) = ''scheduled''"
    by (simp_all add: plainItem_def toLowerCase_def toLowerChar_def)
  have f2: "status targetedItem = ''active''" "toLowerCase (category targetedItem) = ''general''"
    "scheduled_at targetedItem = None"
    by (simp_all add: targetedItem_def plainItem_def toLowerCase_def toLowerChar_def)
  have f3: "status (plainItem\<lparr>status := ''scheduled'', scheduled_at := Some 500\<rparr>) = ''scheduled''"
    by simp
  have f4: "status (plainItem\<lparr>scheduled_at := Some 500\<rparr>) = ''active''"
    "toLowerCase (category (plainItem\<lparr>scheduled_at := Some 500\<rparr>)) = ''general''"
    "scheduled_at (plainItem\<lparr>scheduled_at := Some 500\<rparr>) = Some 500"
    "target_years (plainItem\<lparr>scheduled_at := Some 500\<rparr>) = None"
    by (simp_all add: plainItem_def toLowerCase_def toLowerChar_def)
  have w1: "isVisibleToUser 1000 (plainItem\<lparr>category := ''Scheduled''\<rparr>) admin None None False None"
    by (simp add: G [OF h1])
  have w2: "\<not> isVisibleToUser 1000 (plainItem\<lparr>category := ''Scheduled''\<rparr>) student None None False None"
    by (subst G [OF h1]) (simp add: plainItem_def toLowerCase_def toLowerChar_def)
  have w3: "isVisibleToUser 1000 targetedItem student None None False (Some 25)"
    by (subst G [OF h2]) (simp add: f2 t)
  have w4: "\<not> isVisibleToUser 1000 targetedItem student None None False (Some 24)"
    by (subst G [OF h2]) (simp add: f2 t)
  have w5: "\<not> isVisibleToUser 1000 targetedItem student None None False None"
    by (subst G [OF h2]) (simp add: f2 t)
  have w6: "\<not> isVisibleToUser 1000 (plainItem\<lparr>status := ''scheduled'', scheduled_at := Some 500\<rparr>)
       student None None False (Some 24)"
    by (subst G [OF h3]) (simp add: plainItem_def toLowerCase_def toLowerChar_def)
  have w7: "isVisibleToUser 1000 (plainItem\<lparr>scheduled_at := Some 500\<rparr>) student None None False None"
    by (subst G [OF h4]) (simp add: plainItem_def toLowerCase_def toLowerChar_def)
  show ?thesis by (intro conjI w1 w2 t w3 w4 w5 w6 w7)
qed

text \<open>
  Claim C10: for a non-admin viewer the intake code 0 counts as no intake code: the
  gate answers the same for 0 as for an absent code, and denies every item whose
  target list is non-empty.
\<close>

theorem intake_code_zero_is_unknown:
  assumes "\<not> hasAdminAccess userRole" and "\<not> isSuperAdmin"
  shows "isVisibleToUser now a userRole isAdmin userId isSuperAdmin (Some 0) =
           isVisibleToUser now a userRole isAdmin userId isSuperAdmin None \<and>
         (target_years a = Some ty \<and> ty \<noteq> [] \<longrightarrow>
            \<not> isVisibleToUser now a userRole isAdmin userId isSuperAdmin (Some 0) \<and>
            \<not> isVisibleToUser now a userRole isAdmin userId isSuperAdmin None)"
  using assms by (auto simp: isVisibleToUser_def Let_def split: option.splits)

theorem intake_code_zero_is_unknown_witness:
  "\<not> hasAdminAccess student \<and>
   target_years (plainItem\<lparr>target_years := Some [0, 23]\<rparr>) = Some [0, 23] \<and> [0, 23 :: int] \<noteq> [] \<and>
   \<not> isVisibleToUser 1000 (plainItem\<lparr>target_years := Some [0, 23]\<rparr>) student None None False (Some 0) \<and>
   \<not> isVisibleToUser 1000 (plainItem\<lparr>target_years := Some [0, 23]\<rparr>) student None None False None"
proof -
  have a: "\<not> hasAdminAccess student" by simp
  have b: "\<not> False" by simp
  show ?thesis
    using a intake_code_zero_is_unknown [OF a b, of 1000 "plainItem\<lparr>target_years := Some [0, 23]\<rparr>" None None "[0, 23]"]
    by simp
qed

subsection \<open>Priority Reflow Engine\<close>

lemma setSeconds0_idem: "setSeconds0 (setSeconds0 t) = setSeconds0 t"
  by (simp add: setSeconds0_def)

lemma reflowCompare_le:
  "reflowCompare a b \<le> 0 \<longleftrightarrow>
     priorityLevel a < priorityLevel b \<or>
     (priorityLevel a = priorityLevel b \<and> rolePriority b \<le> rolePriority a)"
  by (auto simp: reflowCompare_def)

lemma reflowCompare_tie:
  "reflowCompare k r = 0 \<longleftrightarrow>
     priorityLevel r = priorityLevel k \<and> rolePriority r = rolePriority k"
  by (auto simp: reflowCompare_def)

lemma reflowCompare_antisymmetric: "antisymmetric reflowCompare"
  by (auto simp: antisymmetric_def reflowCompare_def)

lemma reflowCompare_transitive: "transitive_on reflowCompare us"
  unfolding transitive_on_def reflowCompare_le by auto

lemma windowAt_Suc:
  "windowAt c (Suc k) = windowAt (addMinutes c SLOT_INTERVAL_MINUTES) k"
  by (simp add: windowAt_def addMinutes_def SLOT_INTERVAL_MINUTES_def algebra_simps)

lemma assignedWindows_Nil: "assignedWindows c [] = []"
  by (simp add: assignedWindows_def)

lemma assignedWindows_Cons:
  "assignedWindows c (r # rs) = (r, c) # assignedWindows (addMinutes c SLOT_INTERVAL_MINUTES) rs"
proof -
  have "map (windowAt c) [0..<Suc (length rs)] =
        windowAt c 0 # map (windowAt (addMinutes c SLOT_INTERVAL_MINUTES)) [0..<length rs]"
    by (simp only: map_upt_Suc windowAt_Suc)
  then show ?thesis by (simp add: assignedWindows_def windowAt_def)
qed

lemma adjustmentsOf_Nil: "adjustmentsOf [] = []"
  by (simp add: adjustmentsOf_def)

lemma adjustmentsOf_Cons:
  "adjustmentsOf ((r, w) # rws) =
     (case r_id r of None \<Rightarrow> []
      | Some i \<Rightarrow> if r_scheduledAt r \<noteq> Some w then [\<lparr>adj_id = i, newTime = w\<rparr>] else []) @
     adjustmentsOf rws"
  by (simp add: adjustmentsOf_def)

lemma reflowLoop_adjustments:
  "snd (reflowLoop rs c a adjs) = adjs @ adjustmentsOf (assignedWindows c rs)"
proof (induction rs arbitrary: c a adjs)
  case Nil
  show ?case by (simp add: assignedWindows_Nil adjustmentsOf_Nil)
next
  case (Cons r rs)
  show ?case
    by (cases "r_id r") (auto simp: Cons.IH assignedWindows_Cons adjustmentsOf_Cons)
qed

lemma reflowLoop_no_new:
  "\<forall>r \<in> set rs. r_id r \<noteq> None \<Longrightarrow> fst (reflowLoop rs c a adjs) = a"
proof (induction rs arbitrary: c adjs)
  case Nil
  show ?case by simp
next
  case (Cons r rs)
  then show ?case by (cases "r_id r") auto
qed

lemma reflowLoop_new:
  assumes "\<forall>r \<in> set rs1. r_id r \<noteq> None" and "r_id n = None" and "\<forall>r \<in> set rs2. r_id r \<noteq> None"
  shows "fst (reflowLoop (rs1 @ n # rs2) c a adjs) = windowAt c (length rs1)"
  using assms(1)
proof (induction rs1 arbitrary: c adjs)
  case Nil
  show ?case using assms(2,3) by (simp add: reflowLoop_no_new windowAt_def)
next
  case (Cons r rs1)
  then show ?case by (cases "r_id r") (auto simp: windowAt_Suc)
qed

lemma one_new_split:
  assumes "filter (\<lambda>r. r_id r = None) rs = [n]"
  shows "\<exists>rs2. rs = takeWhile (\<lambda>r. r_id r \<noteq> None) rs @ n # rs2 \<and> (\<forall>r \<in> set rs2. r_id r \<noteq> None)"
proof -
  let ?P = "\<lambda>r. r_id r \<noteq> None"
  have split: "rs = takeWhile ?P rs @ dropWhile ?P rs" by simp
  have f1: "filter (\<lambda>r. r_id r = None) (takeWhile ?P rs) = []"
    by (auto simp: filter_empty_conv dest: set_takeWhileD)
  have "filter (\<lambda>r. r_id r = None) rs =
        filter (\<lambda>r. r_id r = None) (takeWhile ?P rs) @ filter (\<lambda>r. r_id r = None) (dropWhile ?P rs)"
    by (metis filter_append split)
  with assms f1 have f2: "filter (\<lambda>r. r_id r = None) (dropWhile ?P rs) = [n]" by simp
  then have "dropWhile ?P rs \<noteq> []" by (metis filter.simps(1) list.distinct(1))
  then obtain d ds where d: "dropWhile ?P rs = d # ds" by (meson neq_Nil_conv)
  then have "\<not> ?P d" using hd_dropWhile [of ?P rs] by (metis list.distinct(1) list.sel(1))
  with f2 d have "d = n" "filter (\<lambda>r. r_id r = None) ds = []" by auto
  then have "\<forall>r \<in> set ds. r_id r \<noteq> None" by (auto simp: filter_empty_conv)
  with split d \<open>d = n\<close> show ?thesis by metis
qed

lemma reflowRecords_new:
  "filter (\<lambda>r. r_id r = None) (reflowRecords norm conflicts nd p role) = [newRecord nd p role]"
  by (simp add: reflowRecords_def conflictRecord_def newRecord_def filter_empty_conv)

lemma filter_array_sort_new:
  assumes "filter (\<lambda>r. r_id r = None) rs = [n]"
  shows "filter (\<lambda>r. r_id r = None) (array_sort cmp rs) = [n]"
proof -
  have "mset (filter (\<lambda>r. r_id r = None) (array_sort cmp rs)) = mset (filter (\<lambda>r. r_id r = None) rs)"
    by (simp add: mset_array_sort)
  with assms have "mset (filter (\<lambda>r. r_id r = None) (array_sort cmp rs)) = {#n#}" by simp
  then show ?thesis by (metis mset_single_iff mset.simps(2) mset_zero_iff add_mset_eq_single mset_eq_length length_0_conv)
qed

lemma sorted_new_position:
  assumes "ordered = array_sort reflowCompare (reflowRecords norm conflicts nd p role)"
  shows "\<exists>rs2. ordered = takeWhile (\<lambda>r. r_id r \<noteq> None) ordered @ newRecord nd p role # rs2 \<and>
               (\<forall>r \<in> set rs2. r_id r \<noteq> None)"
  using one_new_split [OF filter_array_sort_new [OF reflowRecords_new]] assms by blast

lemma positionOfNew_sorted:
  assumes "ordered = array_sort reflowCompare (reflowRecords norm conflicts nd p role)"
  shows "positionOfNew ordered < length ordered \<and> ordered ! positionOfNew ordered = newRecord nd p role"
proof -
  from sorted_new_position [OF assms] obtain rs2 where
    s: "ordered = takeWhile (\<lambda>r. r_id r \<noteq> None) ordered @ newRecord nd p role # rs2" by blast
  have "length ordered = positionOfNew ordered + Suc (length rs2)"
    unfolding positionOfNew_def by (subst s) simp
  moreover have "ordered ! positionOfNew ordered = newRecord nd p role"
    unfolding positionOfNew_def by (subst s) (simp add: nth_append)
  ultimately show ?thesis by simp
qed

lemma reflowLoop_sorted:
  assumes "ordered = array_sort reflowCompare (reflowRecords norm conflicts nd p role)"
  shows "reflowLoop ordered c a [] =
           (windowAt c (positionOfNew ordered), adjustmentsOf (assignedWindows c ordered))"
proof -
  from sorted_new_position [OF assms] obtain rs2 where
    s: "ordered = takeWhile (\<lambda>r. r_id r \<noteq> None) ordered @ newRecord nd p role # rs2"
    and r: "\<forall>r \<in> set rs2. r_id r \<noteq> None" by blast
  have t: "\<forall>r \<in> set (takeWhile (\<lambda>r. r_id r \<noteq> None) ordered). r_id r \<noteq> None"
    by (auto dest: set_takeWhileD)
  have n: "r_id (newRecord nd p role) = None" by (simp add: newRecord_def)
  have "fst (reflowLoop ordered c a []) = windowAt c (positionOfNew ordered)"
    unfolding positionOfNew_def
    using reflowLoop_new [OF t n r, of c a "[]"] s by simp
  moreover have "snd (reflowLoop ordered c a []) = adjustmentsOf (assignedWindows c ordered)"
    by (simp add: reflowLoop_adjustments)
  ultimately show ?thesis by (metis prod.collapse)
qed

lemma reflow_with_conflicts:
  assumes "nd = setSeconds0 desiredDate"
    and "conflicts = fetchConflictsForRange db nd (addMinutes nd SLOT_INTERVAL_MINUTES)"
    and "conflicts \<noteq> []"
    and "ordered = array_sort reflowCompare (reflowRecords norm conflicts nd p role)"
  shows "reflowSchedulesForSuperAdmin norm db desiredDate p role =
           \<lparr>scheduledAt = windowAt nd (positionOfNew ordered),
            autoAdjusted = (windowAt nd (positionOfNew ordered) \<noteq> nd \<or>
                            adjustmentsOf (assignedWindows nd ordered) \<noteq> []),
            adjustments = adjustmentsOf (assignedWindows nd ordered)\<rparr>"
proof -
  have idem: "setSeconds0 nd = nd" by (simp add: assms(1) setSeconds0_idem)
  have loop: "reflowLoop ordered nd nd [] =
      (windowAt nd (positionOfNew ordered), adjustmentsOf (assignedWindows nd ordered))"
    by (rule reflowLoop_sorted [OF assms(4)])
  show ?thesis
    unfolding reflowSchedulesForSuperAdmin_def Let_def
    using assms(3)
    by (simp add: assms(1) [symmetric] assms(2) [symmetric] assms(4) [symmetric] idem loop)
qed

lemma length_reflowRecords:
  "length (reflowRecords norm conflicts nd p role) = length conflicts + 1"
  by (simp add: reflowRecords_def)

lemma map_snd_assignedWindows:
  "map snd (assignedWindows nd rs) = map (windowAt nd) [0..<length rs]"
  by (simp add: assignedWindows_def)

lemma map_fst_assignedWindows:
  "map fst (assignedWindows nd rs) = rs"
  by (simp add: assignedWindows_def)

lemma windows_increasing: "sorted_wrt (<) (map (windowAt nd) [0..<n])"
  by (simp add: sorted_wrt_map windowAt_def sorted_wrt_iff_nth_less)

lemma conflictRecord_literal:
  "conflictRecord normalizeRole c =
     \<lparr>r_id = Some (c_id c),
      priorityLevel = (case c_priority_level c of None \<Rightarrow> 3 | Some l \<Rightarrow> l),
      rolePriority = getAnnouncementPriority (normalizeRole (c_author_role c) None),
      r_scheduledAt = c_scheduled_at c\<rparr>"
  by (simp add: conflictRecord_def)

lemma newRecord_literal:
  "newRecord nd p userRole =
     \<lparr>r_id = None, priorityLevel = p, rolePriority = getAnnouncementPriority userRole,
      r_scheduledAt = Some nd\<rparr>"
  by (simp add: newRecord_def)

lemma set_ordered:
  assumes "ordered = array_sort reflowCompare (reflowRecords norm conflicts nd p role)"
  shows "set ordered = insert (newRecord nd p role) (conflictRecord norm ` set conflicts)"
  by (simp add: assms set_array_sort reflowRecords_def)

lemma conflict_position:
  assumes "ordered = array_sort reflowCompare (reflowRecords norm conflicts nd p role)"
    and "c \<in> set conflicts"
  shows "\<exists>k<length ordered. k \<noteq> positionOfNew ordered \<and> ordered ! k = conflictRecord norm c"
proof -
  have "conflictRecord norm c \<in> set ordered"
    using assms(2) by (simp add: set_ordered [OF assms(1)])
  then obtain k where k: "k < length ordered" "ordered ! k = conflictRecord norm c"
    by (auto simp: in_set_conv_nth)
  have "r_id (ordered ! k) \<noteq> None" by (simp add: k(2) conflictRecord_def)
  moreover have "r_id (ordered ! positionOfNew ordered) = None"
    using positionOfNew_sorted [OF assms(1)] by (simp add: newRecord_def)
  ultimately have "k \<noteq> positionOfNew ordered" by auto
  with k show ?thesis by blast
qed

lemma entry_is_conflict:
  assumes "ordered = array_sort reflowCompare (reflowRecords norm conflicts nd p role)"
    and "k < length ordered" and "r_id (ordered ! k) \<noteq> None"
  shows "\<exists>c \<in> set conflicts. ordered ! k = conflictRecord norm c"
proof -
  have "ordered ! k \<in> set ordered" using assms(2) by simp
  then have "ordered ! k = newRecord nd p role \<or> ordered ! k \<in> conflictRecord norm ` set conflicts"
    by (simp add: set_ordered [OF assms(1)])
  moreover have "ordered ! k \<noteq> newRecord nd p role"
    using assms(3) by (auto simp: newRecord_def)
  ultimately show ?thesis by blast
qed

lemma no_tie_after_new:
  assumes o: "ordered = array_sort reflowCompare (reflowRecords norm conflicts nd p role)"
    and k: "positionOfNew ordered < k" "k < length ordered"
  shows "reflowCompare (newRecord nd p role) (ordered ! k) \<noteq> 0"
proof
  let ?new = "newRecord nd p role"
  let ?T = "\<lambda>x. reflowCompare ?new x = 0"
  let ?records = "reflowRecords norm conflicts nd p role"
  assume tie: "reflowCompare ?new (ordered ! k) = 0"
  from sorted_new_position [OF o] obtain rs2 where
    s: "ordered = takeWhile (\<lambda>r. r_id r \<noteq> None) ordered @ ?new # rs2"
    and r: "\<forall>r \<in> set rs2. r_id r \<noteq> None" by blast
  let ?rs1 = "takeWhile (\<lambda>r. r_id r \<noteq> None) ordered"
  have len: "length ?rs1 = positionOfNew ordered" by (simp add: positionOfNew_def)
  have "ordered ! k = (?rs1 @ ?new # rs2) ! k" using s by simp
  also have "\<dots> = rs2 ! (k - Suc (positionOfNew ordered))"
    using k(1) len by (simp add: nth_append)
  finally have e: "ordered ! k = rs2 ! (k - Suc (positionOfNew ordered))" .
  have "length ordered = positionOfNew ordered + Suc (length rs2)"
    using len by (subst s) simp
  with k have "k - Suc (positionOfNew ordered) < length rs2" by simp
  then have mem: "ordered ! k \<in> set rs2" using e by simp
  with tie have ne: "filter ?T rs2 \<noteq> []" by (auto simp: filter_empty_conv)
  have st: "stable_sorted_by reflowCompare ?records ordered"
    unfolding o
    by (rule array_sort_stable_sorted_by [OF reflowCompare_antisymmetric reflowCompare_transitive])
  have "?new \<in> set ?records" by (simp add: reflowRecords_def)
  with st have eq: "filter ?T ordered = filter ?T ?records"
    by (simp add: stable_sorted_by_def)
  have self: "?T ?new" by (simp add: reflowCompare_def)
  have "filter ?T ordered = filter ?T ?rs1 @ ?new # filter ?T rs2"
    using self by (subst s) simp
  then have "last (filter ?T ordered) = last (filter ?T rs2)" using ne by simp
  moreover have "last (filter ?T rs2) \<in> set rs2"
    using ne last_in_set [OF ne] by auto
  ultimately have a: "r_id (last (filter ?T ordered)) \<noteq> None" using r by simp
  have "filter ?T ?records = filter ?T (map (conflictRecord norm) conflicts) @ [?new]"
    using self by (simp add: reflowRecords_def)
  then have "last (filter ?T ?records) = ?new" by simp
  then have "r_id (last (filter ?T ?records)) = None" by (simp add: newRecord_def)
  with a eq show False by simp
qed

lemma before_new_iff:
  assumes o: "ordered = array_sort reflowCompare (reflowRecords norm conflicts nd p role)"
    and k: "k < length ordered" "k \<noteq> positionOfNew ordered"
  shows "k < positionOfNew ordered \<longleftrightarrow>
           priorityLevel (ordered ! k) < p \<or>
           (priorityLevel (ordered ! k) = p \<and>
            getAnnouncementPriority role \<le> rolePriority (ordered ! k))"
proof -
  let ?new = "newRecord nd p role"
  let ?records = "reflowRecords norm conflicts nd p role"
  have st: "sorted_wrt (\<lambda>a b. reflowCompare a b \<le> 0) ordered"
    using array_sort_stable_sorted_by [OF reflowCompare_antisymmetric reflowCompare_transitive,
        of ?records]
    by (simp add: o stable_sorted_by_def)
  have pos: "positionOfNew ordered < length ordered" "ordered ! positionOfNew ordered = ?new"
    using positionOfNew_sorted [OF o] by simp_all
  show ?thesis
  proof (cases "k < positionOfNew ordered")
    case True
    with st pos(1) have "reflowCompare (ordered ! k) (ordered ! positionOfNew ordered) \<le> 0"
      by (simp add: sorted_wrt_iff_nth_less)
    then show ?thesis using True by (simp add: pos(2) reflowCompare_le newRecord_def)
  next
    case False
    with k(2) have gt: "positionOfNew ordered < k" by simp
    with st k(1) have "reflowCompare (ordered ! positionOfNew ordered) (ordered ! k) \<le> 0"
      by (simp add: sorted_wrt_iff_nth_less)
    then have le: "reflowCompare ?new (ordered ! k) \<le> 0" by (simp add: pos(2))
    have "reflowCompare ?new (ordered ! k) \<noteq> 0" by (rule no_tie_after_new [OF o gt k(1)])
    with le have "reflowCompare ?new (ordered ! k) < 0" by simp
    then show ?thesis using False by (auto simp: reflowCompare_def newRecord_def split: if_splits)
  qed
qed

text \<open>
  Claim C1: in a reflow with conflicts, the combined list is the conflicting rows in
  query order, each with its id, its stored priority level (3 when absent), the role
  rank of its author and its stored time, followed by the new item with the submitted
  priority level and the rank of the submitter's role. The sorted list is a
  rearrangement of it, in ascending priority level and, for equal levels, descending
  role rank, and entries with the same level and rank keep their relative order; it
  is the only stable sorted arrangement of the combined list. The loop gives the
  entry at position \<open>k\<close> of the sorted list the window \<open>normalizedDesired + k * 5 min\<close>:
  the windows are \<open>conflicts + 1\<close> consecutive 5-minute steps from the truncated
  desired time, strictly increasing, an entry sorted earlier has an earlier window,
  the new item's window is the returned scheduled time and the adjustments are those
  that these windows call for. A conflicting row has its window before the new item's
  exactly when its level is lower than the submitted one, or equal with a role rank
  not below the submitter's, and after it otherwise.
\<close>

theorem reflow_priority_order_and_windows:
  assumes "nd = setSeconds0 desiredDate"
    and "conflicts = fetchConflictsForRange db nd (addMinutes nd SLOT_INTERVAL_MINUTES)"
    and "conflicts \<noteq> []"
    and "records = reflowRecords normalizeRole conflicts nd p userRole"
    and "ordered = array_sort reflowCompare records"
    and "result = reflowSchedulesForSuperAdmin normalizeRole db desiredDate p userRole"
  shows "records =
           map (\<lambda>c. \<lparr>r_id = Some (c_id c),
                       priorityLevel = (case c_priority_level c of None \<Rightarrow> 3 | Some l \<Rightarrow> l),
                       rolePriority = getAnnouncementPriority (normalizeRole (c_author_role c) None),
                       r_scheduledAt = c_scheduled_at c\<rparr>) conflicts @
           [\<lparr>r_id = None, priorityLevel = p, rolePriority = getAnnouncementPriority userRole,
             r_scheduledAt = Some nd\<rparr>] \<and>
         mset ordered = mset records \<and>
         sorted_wrt (\<lambda>a b. priorityLevel a < priorityLevel b \<or>
                       (priorityLevel a = priorityLevel b \<and> rolePriority b \<le> rolePriority a)) ordered \<and>
         (\<forall>k \<in> set records.
            filter (\<lambda>r. priorityLevel r = priorityLevel k \<and> rolePriority r = rolePriority k) ordered =
            filter (\<lambda>r. priorityLevel r = priorityLevel k \<and> rolePriority r = rolePriority k) records) \<and>
         (\<forall>ys. stable_sorted_by reflowCompare records ys \<longrightarrow> ys = ordered) \<and>
         map fst (assignedWindows nd ordered) = ordered \<and>
         map snd (assignedWindows nd ordered) =
           map (\<lambda>k. nd + int k * 300000) [0..<length conflicts + 1] \<and>
         sorted_wrt (<) (map snd (assignedWindows nd ordered)) \<and>
         (\<forall>i j. i < j \<and> j < length ordered \<longrightarrow>
            snd (assignedWindows nd ordered ! i) < snd (assignedWindows nd ordered ! j)) \<and>
         positionOfNew ordered < length ordered \<and>
         ordered ! positionOfNew ordered =
           \<lparr>r_id = None, priorityLevel = p, rolePriority = getAnnouncementPriority userRole,
            r_scheduledAt = Some nd\<rparr> \<and>
         scheduledAt result = snd (assignedWindows nd ordered ! positionOfNew ordered) \<and>
         adjustments result = adjustmentsOf (assignedWindows nd ordered) \<and>
         (\<forall>c \<in> set conflicts. \<exists>k<length ordered.
            ordered ! k =
              \<lparr>r_id = Some (c_id c),
               priorityLevel = (case c_priority_level c of None \<Rightarrow> 3 | Some l \<Rightarrow> l),
               rolePriority = getAnnouncementPriority (normalizeRole (c_author_role c) None),
               r_scheduledAt = c_scheduled_at c\<rparr> \<and>
            (snd (assignedWindows nd ordered ! k) < scheduledAt result \<longleftrightarrow>
               (case c_priority_level c of None \<Rightarrow> 3 | Some l \<Rightarrow> l) < p \<or>
               ((case c_priority_level c of None \<Rightarrow> 3 | Some l \<Rightarrow> l) = p \<and>
                getAnnouncementPriority userRole \<le>
                  getAnnouncementPriority (normalizeRole (c_author_role c) None))) \<and>
            (scheduledAt result < snd (assignedWindows nd ordered ! k) \<longleftrightarrow>
               p < (case c_priority_level c of None \<Rightarrow> 3 | Some l \<Rightarrow> l) \<or>
               ((case c_priority_level c of None \<Rightarrow> 3 | Some l \<Rightarrow> l) = p \<and>
                getAnnouncementPriority (normalizeRole (c_author_role c) None) <
                  getAnnouncementPriority userRole)))"
proof -
  have s: "ordered = array_sort reflowCompare (reflowRecords normalizeRole conflicts nd p userRole)"
    using assms(4,5) by simp
  have st: "stable_sorted_by reflowCompare records ordered"
    unfolding assms(5)
    by (rule array_sort_stable_sorted_by [OF reflowCompare_antisymmetric reflowCompare_transitive])
  have len: "length ordered = length conflicts + 1"
    unfolding assms(5) by (simp add: length_array_sort assms(4) length_reflowRecords)
  have pos: "positionOfNew ordered < length ordered"
    using positionOfNew_sorted [OF s] by simp
  have posn: "ordered ! positionOfNew ordered =
           \<lparr>r_id = None, priorityLevel = p, rolePriority = getAnnouncementPriority userRole,
            r_scheduledAt = Some nd\<rparr>"
    using positionOfNew_sorted [OF s] by (simp add: newRecord_literal)
  have res: "result = \<lparr>scheduledAt = windowAt nd (positionOfNew ordered),
            autoAdjusted = (windowAt nd (positionOfNew ordered) \<noteq> nd \<or>
                            adjustmentsOf (assignedWindows nd ordered) \<noteq> []),
            adjustments = adjustmentsOf (assignedWindows nd ordered)\<rparr>"
    unfolding assms(6) by (rule reflow_with_conflicts [OF assms(1,2,3) s])
  have nth: "snd (assignedWindows nd ordered ! i) = windowAt nd i" if "i < length ordered" for i
    using that by (simp add: assignedWindows_def)
  have c1: "records =
           map (\<lambda>c. \<lparr>r_id = Some (c_id c),
                       priorityLevel = (case c_priority_level c of None \<Rightarrow> 3 | Some l \<Rightarrow> l),
                       rolePriority = getAnnouncementPriority (normalizeRole (c_author_role c) None),
                       r_scheduledAt = c_scheduled_at c\<rparr>) conflicts @
           [\<lparr>r_id = None, priorityLevel = p, rolePriority = getAnnouncementPriority userRole,
             r_scheduledAt = Some nd\<rparr>]"
    by (simp add: assms(4) reflowRecords_def conflictRecord_literal [abs_def] newRecord_literal)
  have c2: "mset ordered = mset records"
    using st by (simp add: stable_sorted_by_def)
  have c3: "sorted_wrt (\<lambda>a b. priorityLevel a < priorityLevel b \<or>
                       (priorityLevel a = priorityLevel b \<and> rolePriority b \<le> rolePriority a)) ordered"
    using st by (simp add: stable_sorted_by_def reflowCompare_le)
  have c4: "\<forall>k \<in> set records.
            filter (\<lambda>r. priorityLevel r = priorityLevel k \<and> rolePriority r = rolePriority k) ordered =
            filter (\<lambda>r. priorityLevel r = priorityLevel k \<and> rolePriority r = rolePriority k) records"
    using st by (simp add: stable_sorted_by_def reflowCompare_tie)
  have cu: "\<forall>ys. stable_sorted_by reflowCompare records ys \<longrightarrow> ys = ordered"
    using stable_sorted_by_unique [OF reflowCompare_antisymmetric _ st] by blast
  have c5: "map snd (assignedWindows nd ordered) =
           map (\<lambda>k. nd + int k * 300000) [0..<length conflicts + 1]"
    by (simp add: map_snd_assignedWindows len windowAt_def [abs_def])
  have c6: "sorted_wrt (<) (map snd (assignedWindows nd ordered))"
    by (simp only: map_snd_assignedWindows windows_increasing)
  have c7: "\<forall>i j. i < j \<and> j < length ordered \<longrightarrow>
            snd (assignedWindows nd ordered ! i) < snd (assignedWindows nd ordered ! j)"
    by (auto simp: nth windowAt_def)
  have c8: "scheduledAt result = snd (assignedWindows nd ordered ! positionOfNew ordered)"
    using pos by (simp add: res nth)
  have c9: "adjustments result = adjustmentsOf (assignedWindows nd ordered)"
    by (simp add: res)
  have c10: "\<forall>c \<in> set conflicts. \<exists>k<length ordered.
            ordered ! k =
              \<lparr>r_id = Some (c_id c),
               priorityLevel = (case c_priority_level c of None \<Rightarrow> 3 | Some l \<Rightarrow> l),
               rolePriority = getAnnouncementPriority (normalizeRole (c_author_role c) None),
               r_scheduledAt = c_scheduled_at c\<rparr> \<and>
            (snd (assignedWindows nd ordered ! k) < scheduledAt result \<longleftrightarrow>
               (case c_priority_level c of None \<Rightarrow> 3 | Some l \<Rightarrow> l) < p \<or>
               ((case c_priority_level c of None \<Rightarrow> 3 | Some l \<Rightarrow> l) = p \<and>
                getAnnouncementPriority userRole \<le>
                  getAnnouncementPriority (normalizeRole (c_author_role c) None))) \<and>
            (scheduledAt result < snd (assignedWindows nd ordered ! k) \<longleftrightarrow>
               p < (case c_priority_level c of None \<Rightarrow> 3 | Some l \<Rightarrow> l) \<or>
               ((case c_priority_level c of None \<Rightarrow> 3 | Some l \<Rightarrow> l) = p \<and>
                getAnnouncementPriority (normalizeRole (c_author_role c) None) <
                  getAnnouncementPriority userRole))"
  proof
    fix c assume "c \<in> set conflicts"
    from conflict_position [OF s this] obtain k where k: "k < length ordered"
      "k \<noteq> positionOfNew ordered" "ordered ! k = conflictRecord normalizeRole c" by blast
    let ?pl = "case c_priority_level c of None \<Rightarrow> 3 | Some l \<Rightarrow> l"
    let ?rk = "getAnnouncementPriority (normalizeRole (c_author_role c) None)"
    have f: "priorityLevel (ordered ! k) = ?pl" "rolePriority (ordered ! k) = ?rk"
      by (simp_all add: k(3) conflictRecord_def)
    have b: "k < positionOfNew ordered \<longleftrightarrow>
        ?pl < p \<or> (?pl = p \<and> getAnnouncementPriority userRole \<le> ?rk)"
      using before_new_iff [OF s k(1,2)] by (simp only: f)
    have w1: "snd (assignedWindows nd ordered ! k) < scheduledAt result \<longleftrightarrow> k < positionOfNew ordered"
      using k(1) by (simp add: res nth windowAt_def)
    have w2: "scheduledAt result < snd (assignedWindows nd ordered ! k) \<longleftrightarrow> positionOfNew ordered < k"
      using k(1) by (simp add: res nth windowAt_def)
    have b2: "positionOfNew ordered < k \<longleftrightarrow>
        p < ?pl \<or> (?pl = p \<and> ?rk < getAnnouncementPriority userRole)"
      using b k(2) by auto
    show "\<exists>k<length ordered.
            ordered ! k =
              \<lparr>r_id = Some (c_id c), priorityLevel = ?pl, rolePriority = ?rk,
               r_scheduledAt = c_scheduled_at c\<rparr> \<and>
            (snd (assignedWindows nd ordered ! k) < scheduledAt result \<longleftrightarrow>
               ?pl < p \<or> (?pl = p \<and> getAnnouncementPriority userRole \<le> ?rk)) \<and>
            (scheduledAt result < snd (assignedWindows nd ordered ! k) \<longleftrightarrow>
               p < ?pl \<or> (?pl = p \<and> ?rk < getAnnouncementPriority userRole))"
    proof (intro exI conjI)
      show "k < length ordered" by (rule k(1))
      show "ordered ! k = \<lparr>r_id = Some (c_id c), priorityLevel = ?pl, rolePriority = ?rk,
               r_scheduledAt = c_scheduled_at c\<rparr>"
        by (simp add: k(3) conflictRecord_literal)
      show "snd (assignedWindows nd ordered ! k) < scheduledAt result \<longleftrightarrow>
               ?pl < p \<or> (?pl = p \<and> getAnnouncementPriority userRole \<le> ?rk)"
        using w1 b by simp
      show "scheduledAt result < snd (assignedWindows nd ordered ! k) \<longleftrightarrow>
               p < ?pl \<or> (?pl = p \<and> ?rk < getAnnouncementPriority userRole)"
        using w2 b2 by simp
    qed
  qed
  show ?thesis
    by (intro conjI c1 c2 c3 c4 cu c5 c6 c7 c8 c9 c10 pos posn map_fst_assignedWindows)
qed

theorem reflow_priority_order_and_windows_witness:
  "fetchConflictsForRange reflowTable (setSeconds0 36030000)
     (addMinutes (setSeconds0 36030000) SLOT_INTERVAL_MINUTES) \<noteq> [] \<and>
   array_sort reflowCompare
     (reflowRecords normalizeUserRole
        (fetchConflictsForRange reflowTable (setSeconds0 36030000)
           (addMinutes (setSeconds0 36030000) SLOT_INTERVAL_MINUTES))
        (setSeconds0 36030000) 1 super_admin) =
     [\<lparr>r_id = Some 13, priorityLevel = 1, rolePriority = 4, r_scheduledAt = Some 36120000\<rparr>,
      \<lparr>r_id = None, priorityLevel = 1, rolePriority = 4, r_scheduledAt = Some 36000000\<rparr>,
      \<lparr>r_id = Some 12, priorityLevel = 1, rolePriority = 1, r_scheduledAt = Some 36060000\<rparr>,
      \<lparr>r_id = Some 11, priorityLevel = 3, rolePriority = 3, r_scheduledAt = Some 36000000\<rparr>] \<and>
   map snd (assignedWindows (setSeconds0 36030000)
     (array_sort reflowCompare
        (reflowRecords normalizeUserRole
           (fetchConflictsForRange reflowTable (setSeconds0 36030000)
              (addMinutes (setSeconds0 36030000) SLOT_INTERVAL_MINUTES))
           (setSeconds0 36030000) 1 super_admin))) =
     map (\<lambda>k. setSeconds0 36030000 + int k * 300000)
       [0..<length (fetchConflictsForRange reflowTable (setSeconds0 36030000)
              (addMinutes (setSeconds0 36030000) SLOT_INTERVAL_MINUTES)) + 1] \<and>
   adjustments (reflowSchedulesForSuperAdmin normalizeUserRole reflowTable 36030000 1 super_admin) =
     adjustmentsOf (assignedWindows (setSeconds0 36030000)
       (array_sort reflowCompare
          (reflowRecords normalizeUserRole
             (fetchConflictsForRange reflowTable (setSeconds0 36030000)
                (addMinutes (setSeconds0 36030000) SLOT_INTERVAL_MINUTES))
             (setSeconds0 36030000) 1 super_admin))) \<and>
   reflowSchedulesForSuperAdmin normalizeUserRole reflowTable 36030000 1 super_admin =
     \<lparr>scheduledAt = 36300000, autoAdjusted = True,
      adjustments = [\<lparr>adj_id = 13, newTime = 36000000\<rparr>, \<lparr>adj_id = 12, newTime = 36600000\<rparr>,
                     \<lparr>adj_id = 11, newTime = 36900000\<rparr>]\<rparr> \<and>
   scheduledAt (reflowSchedulesForSuperAdmin normalizeUserRole [rowX] 36000000 0 super_admin) =
     36000000 \<and>
   scheduledAt (reflowSchedulesForSuperAdmin normalizeUserRole [rowY] 36000000 0 super_admin) =
     36300000"
proof -
  have e1: "fetchConflictsForRange reflowTable (setSeconds0 36030000)
     (addMinutes (setSeconds0 36030000) SLOT_INTERVAL_MINUTES) \<noteq> []"
    by code_simp
  have e2: "array_sort reflowCompare
     (reflowRecords normalizeUserRole
        (fetchConflictsForRange reflowTable (setSeconds0 36030000)
           (addMinutes (setSeconds0 36030000) SLOT_INTERVAL_MINUTES))
        (setSeconds0 36030000) 1 super_admin) =
     [\<lparr>r_id = Some 13, priorityLevel = 1, rolePriority = 4, r_scheduledAt = Some 36120000\<rparr>,
      \<lparr>r_id = None, priorityLevel = 1, rolePriority = 4, r_scheduledAt = Some 36000000\<rparr>,
      \<lparr>r_id = Some 12, priorityLevel = 1, rolePriority = 1, r_scheduledAt = Some 36060000\<rparr>,
      \<lparr>r_id = Some 11, priorityLevel = 3, rolePriority = 3, r_scheduledAt = Some 36000000\<rparr>]"
    by code_simp
  have e3: "reflowSchedulesForSuperAdmin normalizeUserRole reflowTable 36030000 1 super_admin =
     \<lparr>scheduledAt = 36300000, autoAdjusted = True,
      adjustments = [\<lparr>adj_id = 13, newTime = 36000000\<rparr>, \<lparr>adj_id = 12, newTime = 36600000\<rparr>,
                     \<lparr>adj_id = 11, newTime = 36900000\<rparr>]\<rparr>"
    by code_simp
  have e4: "scheduledAt (reflowSchedulesForSuperAdmin normalizeUserRole [rowX] 36000000 0 super_admin) =
     36000000"
    by code_simp
  have e5: "scheduledAt (reflowSchedulesForSuperAdmin normalizeUserRole [rowY] 36000000 0 super_admin) =
     36300000"
    by code_simp
  note T = reflow_priority_order_and_windows [OF refl refl e1 refl refl refl,
      of normalizeUserRole 1 super_admin]
  have t1: "map snd (assignedWindows (setSeconds0 36030000)
     (array_sort reflowCompare
        (reflowRecords normalizeUserRole
           (fetchConflictsForRange reflowTable (setSeconds0 36030000)
              (addMinutes (setSeconds0 36030000) SLOT_INTERVAL_MINUTES))
           (setSeconds0 36030000) 1 super_admin))) =
     map (\<lambda>k. setSeconds0 36030000 + int k * 300000)
       [0..<length (fetchConflictsForRange reflowTable (setSeconds0 36030000)
              (addMinutes (setSeconds0 36030000) SLOT_INTERVAL_MINUTES)) + 1]"
    using T by (elim conjE) assumption
  have t2: "adjustments (reflowSchedulesForSuperAdmin normalizeUserRole reflowTable 36030000 1 super_admin) =
     adjustmentsOf (assignedWindows (setSeconds0 36030000)
       (array_sort reflowCompare
          (reflowRecords normalizeUserRole
             (fetchConflictsForRange reflowTable (setSeconds0 36030000)
                (addMinutes (setSeconds0 36030000) SLOT_INTERVAL_MINUTES))
             (setSeconds0 36030000) 1 super_admin)))"
    using T by (elim conjE) assumption
  show ?thesis by (intro conjI e1 e2 t1 t2 e3 e4 e5)
qed

lemma set_adjustmentsOf:
  "set (adjustmentsOf rws) =
     {adj. \<exists>r w i. (r, w) \<in> set rws \<and> r_id r = Some i \<and> r_scheduledAt r \<noteq> Some w \<and>
                     adj = \<lparr>adj_id = i, newTime = w\<rparr>}"
proof (induction rws)
  case Nil
  show ?case by (simp add: adjustmentsOf_Nil)
next
  case (Cons rw rws)
  obtain r w where rw: "rw = (r, w)" by (cases rw)
  show ?case
    unfolding rw adjustmentsOf_Cons set_append Cons.IH
    by (cases "r_id r") auto
qed

lemma in_assignedWindows:
  "(r, w) \<in> set (assignedWindows nd rs) \<longleftrightarrow> (\<exists>k<length rs. r = rs ! k \<and> w = windowAt nd k)"
  unfolding assignedWindows_def in_set_zip by auto

lemma windowAt_inj: "windowAt nd k = windowAt nd k' \<longleftrightarrow> k = k'"
  by (simp add: windowAt_def)

lemma adjustment_origin:
  assumes "adj \<in> set (adjustmentsOf (assignedWindows nd rs))"
  shows "\<exists>k<length rs. r_id (rs ! k) = Some (adj_id adj) \<and> newTime adj = windowAt nd k \<and>
           r_scheduledAt (rs ! k) \<noteq> Some (windowAt nd k)"
proof -
  from assms obtain r w i where rw: "(r, w) \<in> set (assignedWindows nd rs)"
    and i: "r_id r = Some i" and d: "r_scheduledAt r \<noteq> Some w"
    and adj: "adj = \<lparr>adj_id = i, newTime = w\<rparr>"
    unfolding set_adjustmentsOf by blast
  from rw obtain k where k: "k < length rs" "r = rs ! k" "w = windowAt nd k"
    unfolding in_assignedWindows by blast
  show ?thesis
  proof (intro exI conjI)
    show "k < length rs" by (rule k(1))
    show "r_id (rs ! k) = Some (adj_id adj)" using i k(2) adj by simp
    show "newTime adj = windowAt nd k" using adj k(3) by simp
    show "r_scheduledAt (rs ! k) \<noteq> Some (windowAt nd k)" using d k(2,3) by simp
  qed
qed

lemma adjustment_emitted_iff:
  assumes "k < length rs" and "r_id (rs ! k) = Some i"
  shows "\<lparr>adj_id = i, newTime = windowAt nd k\<rparr> \<in> set (adjustmentsOf (assignedWindows nd rs)) \<longleftrightarrow>
         r_scheduledAt (rs ! k) \<noteq> Some (windowAt nd k)"
proof
  assume "\<lparr>adj_id = i, newTime = windowAt nd k\<rparr> \<in> set (adjustmentsOf (assignedWindows nd rs))"
  from adjustment_origin [OF this] obtain k' where "k' < length rs"
    and "windowAt nd k = windowAt nd k'"
    and "r_scheduledAt (rs ! k') \<noteq> Some (windowAt nd k')"
    by auto
  then show "r_scheduledAt (rs ! k) \<noteq> Some (windowAt nd k)"
    by (simp add: windowAt_inj)
next
  assume d: "r_scheduledAt (rs ! k) \<noteq> Some (windowAt nd k)"
  have "(rs ! k, windowAt nd k) \<in> set (assignedWindows nd rs)"
    unfolding in_assignedWindows using assms(1) by blast
  with d assms(2) show "\<lparr>adj_id = i, newTime = windowAt nd k\<rparr> \<in> set (adjustmentsOf (assignedWindows nd rs))"
    unfolding set_adjustmentsOf by blast
qed

lemma reflow_scenario_B:
  assumes "nd = setSeconds0 desiredDate"
    and "fetchConflictsForRange db nd (addMinutes nd SLOT_INTERVAL_MINUTES) = [x]"
    and "c_scheduled_at x = Some nd" and "c_priority_level x = Some 3"
  shows "reflowSchedulesForSuperAdmin normalizeRole db desiredDate 0 userRole =
           \<lparr>scheduledAt = nd, autoAdjusted = True,
            adjustments = [\<lparr>adj_id = c_id x, newTime = nd + 300000\<rparr>]\<rparr>"
proof -
  have idem: "setSeconds0 nd = nd" by (simp add: assms(1) setSeconds0_idem)
  let ?xr = "conflictRecord normalizeRole x"
  let ?new = "newRecord nd 0 userRole"
  have "reflowCompare ?xr ?new = 3"
    by (simp add: reflowCompare_def conflictRecord_def newRecord_def assms(4))
  then have ord: "array_sort reflowCompare (reflowRecords normalizeRole [x] nd 0 userRole) = [?new, ?xr]"
    by (simp add: reflowRecords_def)
  have loop: "reflowLoop [?new, ?xr] nd nd [] = (nd, [\<lparr>adj_id = c_id x, newTime = nd + 300000\<rparr>])"
    by (simp add: conflictRecord_def newRecord_def assms(3) addMinutes_def SLOT_INTERVAL_MINUTES_def)
  show ?thesis
    unfolding reflowSchedulesForSuperAdmin_def Let_def
    by (simp only: assms(1) [symmetric] assms(2) idem ord loop) simp
qed

text \<open>
  Claim C4: in a reflow with conflicts, every conflicting row has a position in the
  sorted list, and the adjustment (its id, the window of that position) is emitted if
  and only if that window differs from the row's stored scheduled time; every emitted
  adjustment is of this kind. The window of the new item is the returned scheduled
  time, which \<open>POST\<close> takes as the scheduled time of the new announcement;
  \<open>autoAdjusted\<close> is true if and only if the new item is not on the truncated desired
  time or there is an adjustment. With one conflict at the desired time with priority
  3 and role rank 4 and a new super_admin submission with priority 0, the new item
  gets the desired time, the one adjustment moves the existing item 5 minutes later,
  and \<open>autoAdjusted\<close> is true.
\<close>

theorem reflow_adjustments_and_flag:
  assumes "nd = setSeconds0 desiredDate"
    and "conflicts = fetchConflictsForRange db nd (addMinutes nd SLOT_INTERVAL_MINUTES)"
    and "conflicts \<noteq> []"
    and "ordered = array_sort reflowCompare (reflowRecords normalizeRole conflicts nd p userRole)"
    and "result = reflowSchedulesForSuperAdmin normalizeRole db desiredDate p userRole"
  shows "(\<forall>c \<in> set conflicts. \<exists>k<length ordered.
            ordered ! k =
              \<lparr>r_id = Some (c_id c),
               priorityLevel = (case c_priority_level c of None \<Rightarrow> 3 | Some l \<Rightarrow> l),
               rolePriority = getAnnouncementPriority (normalizeRole (c_author_role c) None),
               r_scheduledAt = c_scheduled_at c\<rparr> \<and>
            (\<lparr>adj_id = c_id c, newTime = windowAt nd k\<rparr> \<in> set (adjustments result) \<longleftrightarrow>
             c_scheduled_at c \<noteq> Some (windowAt nd k))) \<and>
         (\<forall>adj \<in> set (adjustments result). \<exists>c \<in> set conflicts. \<exists>k<length ordered.
            ordered ! k =
              \<lparr>r_id = Some (c_id c),
               priorityLevel = (case c_priority_level c of None \<Rightarrow> 3 | Some l \<Rightarrow> l),
               rolePriority = getAnnouncementPriority (normalizeRole (c_author_role c) None),
               r_scheduledAt = c_scheduled_at c\<rparr> \<and>
            adj = \<lparr>adj_id = c_id c, newTime = windowAt nd k\<rparr> \<and>
            c_scheduled_at c \<noteq> Some (windowAt nd k)) \<and>
         (\<forall>k i. k < length ordered \<and> r_id (ordered ! k) = Some i \<longrightarrow>
            (\<lparr>adj_id = i, newTime = windowAt nd k\<rparr> \<in> set (adjustments result) \<longleftrightarrow>
             r_scheduledAt (ordered ! k) \<noteq> Some (windowAt nd k))) \<and>
         ordered ! positionOfNew ordered =
           \<lparr>r_id = None, priorityLevel = p, rolePriority = getAnnouncementPriority userRole,
            r_scheduledAt = Some nd\<rparr> \<and>
         scheduledAt result = windowAt nd (positionOfNew ordered) \<and>
         (userRole = super_admin \<longrightarrow>
            resolveSchedule normalizeRole db desiredDate p userRole =
              Inr \<lparr>resolvedScheduledDate = windowAt nd (positionOfNew ordered),
                   autoRescheduled = autoAdjusted result,
                   pendingScheduleAdjustments = adjustments result\<rparr>) \<and>
         (autoAdjusted result \<longleftrightarrow> scheduledAt result \<noteq> nd \<or> adjustments result \<noteq> []) \<and>
         (\<forall>x. conflicts = [x] \<and> c_scheduled_at x = Some nd \<and> c_priority_level x = Some 3 \<and>
              getAnnouncementPriority (normalizeRole (c_author_role x) None) = 4 \<and>
              p = 0 \<and> userRole = super_admin \<longrightarrow>
              result = \<lparr>scheduledAt = nd, autoAdjusted = True,
                        adjustments = [\<lparr>adj_id = c_id x, newTime = nd + 300000\<rparr>]\<rparr>)"
proof -
  have res: "result = \<lparr>scheduledAt = windowAt nd (positionOfNew ordered),
            autoAdjusted = (windowAt nd (positionOfNew ordered) \<noteq> nd \<or>
                            adjustmentsOf (assignedWindows nd ordered) \<noteq> []),
            adjustments = adjustmentsOf (assignedWindows nd ordered)\<rparr>"
    unfolding assms(5) by (rule reflow_with_conflicts [OF assms(1,2,3,4)])
  have a1: "\<forall>c \<in> set conflicts. \<exists>k<length ordered.
            ordered ! k =
              \<lparr>r_id = Some (c_id c),
               priorityLevel = (case c_priority_level c of None \<Rightarrow> 3 | Some l \<Rightarrow> l),
               rolePriority = getAnnouncementPriority (normalizeRole (c_author_role c) None),
               r_scheduledAt = c_scheduled_at c\<rparr> \<and>
            (\<lparr>adj_id = c_id c, newTime = windowAt nd k\<rparr> \<in> set (adjustments result) \<longleftrightarrow>
             c_scheduled_at c \<noteq> Some (windowAt nd k))"
  proof
    fix c assume "c \<in> set conflicts"
    from conflict_position [OF assms(4) this] obtain k where k: "k < length ordered"
      "ordered ! k = conflictRecord normalizeRole c" by blast
    have i: "r_id (ordered ! k) = Some (c_id c)" by (simp add: k(2) conflictRecord_def)
    have t: "r_scheduledAt (ordered ! k) = c_scheduled_at c" by (simp add: k(2) conflictRecord_def)
    have "\<lparr>adj_id = c_id c, newTime = windowAt nd k\<rparr> \<in> set (adjustments result) \<longleftrightarrow>
             c_scheduled_at c \<noteq> Some (windowAt nd k)"
      using adjustment_emitted_iff [OF k(1) i, of nd] by (simp add: res t)
    with k show "\<exists>k<length ordered.
            ordered ! k =
              \<lparr>r_id = Some (c_id c),
               priorityLevel = (case c_priority_level c of None \<Rightarrow> 3 | Some l \<Rightarrow> l),
               rolePriority = getAnnouncementPriority (normalizeRole (c_author_role c) None),
               r_scheduledAt = c_scheduled_at c\<rparr> \<and>
            (\<lparr>adj_id = c_id c, newTime = windowAt nd k\<rparr> \<in> set (adjustments result) \<longleftrightarrow>
             c_scheduled_at c \<noteq> Some (windowAt nd k))"
      by (auto simp: conflictRecord_literal)
  qed
  have a2: "\<forall>adj \<in> set (adjustments result). \<exists>c \<in> set conflicts. \<exists>k<length ordered.
            ordered ! k =
              \<lparr>r_id = Some (c_id c),
               priorityLevel = (case c_priority_level c of None \<Rightarrow> 3 | Some l \<Rightarrow> l),
               rolePriority = getAnnouncementPriority (normalizeRole (c_author_role c) None),
               r_scheduledAt = c_scheduled_at c\<rparr> \<and>
            adj = \<lparr>adj_id = c_id c, newTime = windowAt nd k\<rparr> \<and>
            c_scheduled_at c \<noteq> Some (windowAt nd k)"
  proof
    fix adj assume "adj \<in> set (adjustments result)"
    then have "adj \<in> set (adjustmentsOf (assignedWindows nd ordered))" by (simp add: res)
    from adjustment_origin [OF this] obtain k where k: "k < length ordered"
      "r_id (ordered ! k) = Some (adj_id adj)" "newTime adj = windowAt nd k"
      "r_scheduledAt (ordered ! k) \<noteq> Some (windowAt nd k)" by blast
    from k(2) have "r_id (ordered ! k) \<noteq> None" by simp
    from entry_is_conflict [OF assms(4) k(1) this] obtain c where c: "c \<in> set conflicts"
      "ordered ! k = conflictRecord normalizeRole c" by blast
    have "adj_id adj = c_id c" using k(2) by (simp add: c(2) conflictRecord_def)
    with k(3) have adj: "adj = \<lparr>adj_id = c_id c, newTime = windowAt nd k\<rparr>" by simp
    have d: "c_scheduled_at c \<noteq> Some (windowAt nd k)"
      using k(4) by (simp add: c(2) conflictRecord_def)
    show "\<exists>c \<in> set conflicts. \<exists>k<length ordered.
            ordered ! k =
              \<lparr>r_id = Some (c_id c),
               priorityLevel = (case c_priority_level c of None \<Rightarrow> 3 | Some l \<Rightarrow> l),
               rolePriority = getAnnouncementPriority (normalizeRole (c_author_role c) None),
               r_scheduledAt = c_scheduled_at c\<rparr> \<and>
            adj = \<lparr>adj_id = c_id c, newTime = windowAt nd k\<rparr> \<and>
            c_scheduled_at c \<noteq> Some (windowAt nd k)"
    proof (intro bexI [of _ c] exI [of _ k] conjI)
      show "k < length ordered" by (rule k(1))
      show "ordered ! k =
              \<lparr>r_id = Some (c_id c),
               priorityLevel = (case c_priority_level c of None \<Rightarrow> 3 | Some l \<Rightarrow> l),
               rolePriority = getAnnouncementPriority (normalizeRole (c_author_role c) None),
               r_scheduledAt = c_scheduled_at c\<rparr>"
        by (simp add: c(2) conflictRecord_literal)
      show "adj = \<lparr>adj_id = c_id c, newTime = windowAt nd k\<rparr>" by (rule adj)
      show "c_scheduled_at c \<noteq> Some (windowAt nd k)" by (rule d)
      show "c \<in> set conflicts" by (rule c(1))
    qed
  qed
  have c1: "\<forall>k i. k < length ordered \<and> r_id (ordered ! k) = Some i \<longrightarrow>
            (\<lparr>adj_id = i, newTime = windowAt nd k\<rparr> \<in> set (adjustments result) \<longleftrightarrow>
             r_scheduledAt (ordered ! k) \<noteq> Some (windowAt nd k))"
    by (simp add: res adjustment_emitted_iff)
  have c3: "ordered ! positionOfNew ordered =
           \<lparr>r_id = None, priorityLevel = p, rolePriority = getAnnouncementPriority userRole,
            r_scheduledAt = Some nd\<rparr>"
    using positionOfNew_sorted [OF assms(4)] by (simp add: newRecord_literal)
  have c4: "scheduledAt result = windowAt nd (positionOfNew ordered)"
    by (simp add: res)
  have c5: "userRole = super_admin \<longrightarrow>
            resolveSchedule normalizeRole db desiredDate p userRole =
              Inr \<lparr>resolvedScheduledDate = windowAt nd (positionOfNew ordered),
                   autoRescheduled = autoAdjusted result,
                   pendingScheduleAdjustments = adjustments result\<rparr>"
    using c4 unfolding assms(5) by (auto simp: resolveSchedule_def Let_def)
  have c6: "autoAdjusted result \<longleftrightarrow> scheduledAt result \<noteq> nd \<or> adjustments result \<noteq> []"
    by (simp add: res)
  have c7: "\<forall>x. conflicts = [x] \<and> c_scheduled_at x = Some nd \<and> c_priority_level x = Some 3 \<and>
              getAnnouncementPriority (normalizeRole (c_author_role x) None) = 4 \<and>
              p = 0 \<and> userRole = super_admin \<longrightarrow>
              result = \<lparr>scheduledAt = nd, autoAdjusted = True,
                        adjustments = [\<lparr>adj_id = c_id x, newTime = nd + 300000\<rparr>]\<rparr>"
  proof (intro allI impI)
    fix x
    assume h: "conflicts = [x] \<and> c_scheduled_at x = Some nd \<and> c_priority_level x = Some 3 \<and>
              getAnnouncementPriority (normalizeRole (c_author_role x) None) = 4 \<and>
              p = 0 \<and> userRole = super_admin"
    then have "fetchConflictsForRange db nd (addMinutes nd SLOT_INTERVAL_MINUTES) = [x]"
      using assms(2) by simp
    from reflow_scenario_B [OF assms(1) this, of normalizeRole userRole] h
    show "result = \<lparr>scheduledAt = nd, autoAdjusted = True,
                        adjustments = [\<lparr>adj_id = c_id x, newTime = nd + 300000\<rparr>]\<rparr>"
      unfolding assms(5) by simp
  qed
  show ?thesis by (intro conjI a1 a2 c1 c3 c4 c5 c6 c7)
qed

theorem reflow_adjustments_and_flag_witness:
  "fetchConflictsForRange [rowX] (setSeconds0 36000000)
     (addMinutes (setSeconds0 36000000) SLOT_INTERVAL_MINUTES) = [conflictX] \<and>
   [conflictX] \<noteq> [] \<and>
   c_scheduled_at conflictX = Some (setSeconds0 36000000) \<and>
   c_priority_level conflictX = Some 3 \<and>
   getAnnouncementPriority (normalizeUserRole (c_author_role conflictX) None) = 4 \<and>
   reflowSchedulesForSuperAdmin normalizeUserRole [rowX] 36000000 0 super_admin =
     \<lparr>scheduledAt = setSeconds0 36000000, autoAdjusted = True,
      adjustments = [\<lparr>adj_id = c_id conflictX, newTime = setSeconds0 36000000 + 300000\<rparr>]\<rparr> \<and>
   setSeconds0 36000000 = 36000000 \<and> c_id conflictX = 21 \<and>
   reflowSchedulesForSuperAdmin normalizeUserRole [rowY] 36000000 3 super_admin =
     \<lparr>scheduledAt = 36300000, autoAdjusted = True, adjustments = []\<rparr>"
proof -
  have e1: "fetchConflictsForRange [rowX] (setSeconds0 36000000)
     (addMinutes (setSeconds0 36000000) SLOT_INTERVAL_MINUTES) = [conflictX]"
    by code_simp
  have e2: "[conflictX] \<noteq> []" by simp
  have e3: "c_scheduled_at conflictX = Some (setSeconds0 36000000)" by code_simp
  have e4: "c_priority_level conflictX = Some 3" by code_simp
  have e5: "getAnnouncementPriority (normalizeUserRole (c_author_role conflictX) None) = 4"
    by code_simp
  have e6: "setSeconds0 36000000 = 36000000" by code_simp
  have e7: "c_id conflictX = 21" by code_simp
  have e8: "reflowSchedulesForSuperAdmin normalizeUserRole [rowY] 36000000 3 super_admin =
     \<lparr>scheduledAt = 36300000, autoAdjusted = True, adjustments = []\<rparr>"
    by code_simp
  note T = reflow_adjustments_and_flag [OF refl e1 [symmetric] e2 refl refl,
      of normalizeUserRole 0 super_admin]
  note S = T [THEN conjunct2, THEN conjunct2, THEN conjunct2, THEN conjunct2, THEN conjunct2,
      THEN conjunct2, THEN conjunct2, THEN spec [where x = conflictX]]
  have sb: "reflowSchedulesForSuperAdmin normalizeUserRole [rowX] 36000000 0 super_admin =
     \<lparr>scheduledAt = setSeconds0 36000000, autoAdjusted = True,
      adjustments = [\<lparr>adj_id = c_id conflictX, newTime = setSeconds0 36000000 + 300000\<rparr>]\<rparr>"
    using S e3 e4 e5 by simp
  show ?thesis by (intro conjI e1 e2 e3 e4 e5 sb e6 e7 e8)
qed

subsection \<open>Presentation Ordering\<close>

lemma compareAnnouncements_antisymmetric: "antisymmetric (compareAnnouncements now)"
  unfolding antisymmetric_def compareAnnouncements_def Let_def
  by (auto simp: abs_minus_commute)

text \<open>
  Claim C6, as stated: the ordering is a total order. Three items of equal priority,
  created at 0, 800 and 1600 ms with ids 1, 2 and 3, the first one urgent with an open
  priority window, compared at time 5000: the second goes before the first and the
  third before the second (created within a second, higher id first), and the first
  goes before the third (more than a second apart, open priority window first).
\<close>

theorem presentation_comparator_cycle_counterexample:
  "compareAnnouncements 5000 cycQ cycP < 0 \<and> compareAnnouncements 5000 cycR cycQ < 0 \<and>
   compareAnnouncements 5000 cycP cycR < 0"
  by code_simp

text \<open>
  Claim C6, amended: the comparator decides every pair of items by, in this order:
  emergency items first; then the lower priority level (3 when absent); then, for
  equal levels and creation times at most 1000 ms apart, the higher id; then, for
  equal levels and creation times further apart, an item that is urgent with a
  priority window still open before one that is not; and last the newer creation
  time. Swapping the two items swaps the sign, and two items are returned in the
  comparator's order, in input order when it is 0. For A and B of priority 1, B created
  500 ms after A with the higher id, the output is [B, A].
\<close>

theorem presentation_comparator_keys:
  "compareAnnouncements now b a = - compareAnnouncements now a b \<and>
   (is_emergency a \<and> \<not> is_emergency b \<longrightarrow> compareAnnouncements now a b < 0) \<and>
   (is_emergency a = is_emergency b \<and> priorityNum a < priorityNum b \<longrightarrow>
      compareAnnouncements now a b < 0) \<and>
   (is_emergency a = is_emergency b \<and> priorityNum a = priorityNum b \<and>
    \<bar>createdTime a - createdTime b\<bar> \<le> 1000 \<longrightarrow>
      compareAnnouncements now a b = idNum b - idNum a) \<and>
   (is_emergency a = is_emergency b \<and> priorityNum a = priorityNum b \<and>
    \<bar>createdTime a - createdTime b\<bar> > 1000 \<and> hasPriority now a \<and> \<not> hasPriority now b \<longrightarrow>
      compareAnnouncements now a b < 0) \<and>
   (is_emergency a = is_emergency b \<and> priorityNum a = priorityNum b \<and>
    \<bar>createdTime a - createdTime b\<bar> > 1000 \<and> hasPriority now a = hasPriority now b \<longrightarrow>
      compareAnnouncements now a b = createdTime b - createdTime a) \<and>
   sortAnnouncementsByPriority now [a, b] userRole =
     (if compareAnnouncements now a b \<le> 0 then [a, b] else [b, a]) \<and>
   (is_emergency a = is_emergency b \<and> priority_level a = Some 1 \<and> priority_level b = Some 1 \<and>
    created_at a = Some t \<and> created_at b = Some (t + 500) \<and>
    ann_id a = Some i \<and> ann_id b = Some j \<and> i < j \<longrightarrow>
      sortAnnouncementsByPriority now [a, b] userRole = [b, a])"
proof -
  have anti: "compareAnnouncements now b a = - compareAnnouncements now a b"
    using compareAnnouncements_antisymmetric [of now] unfolding antisymmetric_def by blast
  have k1: "is_emergency a \<and> \<not> is_emergency b \<longrightarrow> compareAnnouncements now a b < 0"
    by (simp add: compareAnnouncements_def)
  have k2: "is_emergency a = is_emergency b \<and> priorityNum a < priorityNum b \<longrightarrow>
      compareAnnouncements now a b < 0"
    by (auto simp: compareAnnouncements_def Let_def priorityNum_def)
  have k3: "is_emergency a = is_emergency b \<and> priorityNum a = priorityNum b \<and>
    \<bar>createdTime a - createdTime b\<bar> \<le> 1000 \<longrightarrow>
      compareAnnouncements now a b = idNum b - idNum a"
    by (auto simp: compareAnnouncements_def Let_def priorityNum_def createdTime_def idNum_def
        SAME_TIME_THRESHOLD_def)
  have k4: "is_emergency a = is_emergency b \<and> priorityNum a = priorityNum b \<and>
    \<bar>createdTime a - createdTime b\<bar> > 1000 \<and> hasPriority now a \<and> \<not> hasPriority now b \<longrightarrow>
      compareAnnouncements now a b < 0"
    by (auto simp: compareAnnouncements_def Let_def priorityNum_def createdTime_def
        SAME_TIME_THRESHOLD_def)
  have k5: "is_emergency a = is_emergency b \<and> priorityNum a = priorityNum b \<and>
    \<bar>createdTime a - createdTime b\<bar> > 1000 \<and> hasPriority now a = hasPriority now b \<longrightarrow>
      compareAnnouncements now a b = createdTime b - createdTime a"
    by (auto simp: compareAnnouncements_def Let_def priorityNum_def createdTime_def
        SAME_TIME_THRESHOLD_def)
  have two: "sortAnnouncementsByPriority now [a, b] userRole =
     (if compareAnnouncements now a b \<le> 0 then [a, b] else [b, a])"
    by (simp add: sortAnnouncementsByPriority_def)
  have sc: "is_emergency a = is_emergency b \<and> priority_level a = Some 1 \<and> priority_level b = Some 1 \<and>
    created_at a = Some t \<and> created_at b = Some (t + 500) \<and>
    ann_id a = Some i \<and> ann_id b = Some j \<and> i < j \<longrightarrow>
      sortAnnouncementsByPriority now [a, b] userRole = [b, a]"
    by (auto simp: sortAnnouncementsByPriority_def compareAnnouncements_def Let_def
        SAME_TIME_THRESHOLD_def)
  show ?thesis by (intro conjI anti k1 k2 k3 k4 k5 two sc)
qed

theorem presentation_comparator_keys_witness:
  "compareAnnouncements 5000 alertE tiedA < 0 \<and>
   compareAnnouncements 5000 cycQ tiedA < 0 \<and>
   compareAnnouncements 5000 cycP cycQ = idNum cycQ - idNum cycP \<and>
   compareAnnouncements 5000 cycP cycR < 0 \<and>
   compareAnnouncements 5000 cycQ scenarioA = createdTime scenarioA - createdTime cycQ \<and>
   sortAnnouncementsByPriority 5000 [scenarioA, scenarioB] student = [scenarioB, scenarioA]"
proof -
  have h1: "is_emergency alertE \<and> \<not> is_emergency tiedA" by code_simp
  have h2: "is_emergency cycQ = is_emergency tiedA \<and> priorityNum cycQ < priorityNum tiedA"
    by code_simp
  have h3: "is_emergency cycP = is_emergency cycQ \<and> priorityNum cycP = priorityNum cycQ \<and>
    \<bar>createdTime cycP - createdTime cycQ\<bar> \<le> 1000" by code_simp
  have h4: "is_emergency cycP = is_emergency cycR \<and> priorityNum cycP = priorityNum cycR \<and>
    \<bar>createdTime cycP - createdTime cycR\<bar> > 1000 \<and>
    hasPriority 5000 cycP \<and> \<not> hasPriority 5000 cycR"
    by code_simp
  have h5: "is_emergency cycQ = is_emergency scenarioA \<and>
    priorityNum cycQ = priorityNum scenarioA \<and>
    \<bar>createdTime cycQ - createdTime scenarioA\<bar> > 1000 \<and>
    hasPriority 5000 cycQ = hasPriority 5000 scenarioA"
    by code_simp
  have h6: "is_emergency scenarioA = is_emergency scenarioB \<and>
    priority_level scenarioA = Some 1 \<and> priority_level scenarioB = Some 1 \<and>
    created_at scenarioA = Some 1000000 \<and> created_at scenarioB = Some (1000000 + 500) \<and>
    ann_id scenarioA = Some 1 \<and> ann_id scenarioB = Some 2 \<and> (1::int) < 2"
    by code_simp
  note c2 = conjunct2
  have c1: "compareAnnouncements 5000 alertE tiedA < 0"
    using h1 presentation_comparator_keys [of 5000 tiedA alertE, THEN c2, THEN conjunct1]
    by (rule rev_mp)
  have c2': "compareAnnouncements 5000 cycQ tiedA < 0"
    using h2 presentation_comparator_keys [of 5000 tiedA cycQ, THEN c2, THEN c2, THEN conjunct1]
    by (rule rev_mp)
  have c3: "compareAnnouncements 5000 cycP cycQ = idNum cycQ - idNum cycP"
    using h3 presentation_comparator_keys [of 5000 cycQ cycP, THEN c2, THEN c2, THEN c2,
        THEN conjunct1]
    by (rule rev_mp)
  have c4: "compareAnnouncements 5000 cycP cycR < 0"
    using h4 presentation_comparator_keys [of 5000 cycR cycP, THEN c2, THEN c2, THEN c2,
        THEN c2, THEN conjunct1]
    by (rule rev_mp)
  have c5: "compareAnnouncements 5000 cycQ scenarioA = createdTime scenarioA - createdTime cycQ"
    using h5 presentation_comparator_keys [of 5000 scenarioA cycQ, THEN c2, THEN c2, THEN c2,
        THEN c2, THEN c2, THEN conjunct1]
    by (rule rev_mp)
  have c6: "sortAnnouncementsByPriority 5000 [scenarioA, scenarioB] student = [scenarioB, scenarioA]"
    using h6 presentation_comparator_keys [of 5000 scenarioB scenarioA student 1000000 1 2,
        THEN c2, THEN c2, THEN c2, THEN c2, THEN c2, THEN c2, THEN c2]
    by (rule rev_mp)
  show ?thesis by (intro conjI c1 c2' c3 c4 c5 c6)
qed

lemma all_tied_stable_sorted_by:
  assumes "\<forall>a \<in> set xs. \<forall>b \<in> set xs. cmp a b = 0"
  shows "stable_sorted_by cmp xs xs"
proof -
  have "sorted_wrt (\<lambda>a b. cmp a b \<le> 0) xs"
    using assms by (simp add: sorted_wrt_iff_nth_less)
  then show ?thesis by (simp add: stable_sorted_by_def)
qed

lemma all_tied_transitive_on:
  assumes "\<forall>a \<in> set xs. \<forall>b \<in> set xs. cmp a b = 0"
  shows "transitive_on cmp xs"
  using assms by (simp add: transitive_on_def)

lemma cycle_has_no_stable_order:
  "\<not> (\<exists>ys. stable_sorted_by (compareAnnouncements 5000) [cycP, cycQ, cycR] ys)"
proof
  assume "\<exists>ys. stable_sorted_by (compareAnnouncements 5000) [cycP, cycQ, cycR] ys"
  then obtain ys where m: "mset ys = mset [cycP, cycQ, cycR]"
    and s: "sorted_wrt (\<lambda>a b. compareAnnouncements 5000 a b \<le> 0) ys"
    unfolding stable_sorted_by_def by blast
  from m have "set ys = set [cycP, cycQ, cycR]" by (metis set_mset_mset)
  then have "cycP \<in> set ys" "cycQ \<in> set ys" "cycR \<in> set ys" by simp_all
  then obtain i j k where i: "i < length ys" "ys ! i = cycP"
    and j: "j < length ys" "ys ! j = cycQ" and k: "k < length ys" "ys ! k = cycR"
    by (metis in_set_conv_nth)
  have pq: "compareAnnouncements 5000 cycP cycQ > 0" by code_simp
  have qr: "compareAnnouncements 5000 cycQ cycR > 0" by code_simp
  have rp: "compareAnnouncements 5000 cycR cycP > 0" by code_simp
  have pp: "compareAnnouncements 5000 cycP cycP = 0"
    by (rule antisymmetric_refl [OF compareAnnouncements_antisymmetric])
  note n = s [unfolded sorted_wrt_iff_nth_less, rule_format]
  have "\<not> i < j" using n [of i j] j(1) i(2) j(2) pq by auto
  moreover have "i \<noteq> j" using i(2) j(2) pq pp by auto
  moreover have "\<not> j < k" using n [of j k] k(1) j(2) k(2) qr by auto
  moreover have "\<not> k < i" using n [of k i] i(1) k(2) i(2) rp by auto
  moreover have "j \<noteq> k" using j(2) k(2) qr rp pq
    by (metis less_irrefl antisymmetric_refl [OF compareAnnouncements_antisymmetric])
  ultimately show False by linarith
qed

text \<open>
  Claim C8, as stated: for every list the comparator and the stability of the sort
  fully determine the output order. For the three items above no arrangement is
  sorted by the comparator: each of the six has an item in front of one that the
  comparator puts before it. Whatever the engine returns for this list, the
  comparator and stability have not determined it.
\<close>

theorem presentation_order_no_sorted_arrangement_counterexample:
  "\<not> stable_sorted_by (compareAnnouncements 5000) [cycP, cycQ, cycR] [cycP, cycQ, cycR] \<and>
   \<not> stable_sorted_by (compareAnnouncements 5000) [cycP, cycQ, cycR] [cycP, cycR, cycQ] \<and>
   \<not> stable_sorted_by (compareAnnouncements 5000) [cycP, cycQ, cycR] [cycQ, cycP, cycR] \<and>
   \<not> stable_sorted_by (compareAnnouncements 5000) [cycP, cycQ, cycR] [cycQ, cycR, cycP] \<and>
   \<not> stable_sorted_by (compareAnnouncements 5000) [cycP, cycQ, cycR] [cycR, cycP, cycQ] \<and>
   \<not> stable_sorted_by (compareAnnouncements 5000) [cycP, cycQ, cycR] [cycR, cycQ, cycP]"
  using cycle_has_no_stable_order by blast

text \<open>
  Claim C8, amended: at a fixed evaluation time, whenever the comparator is transitive
  on the items of the list, the output is a stable sorted arrangement of the input
  and it is the only one, so every stable sort returns it (the second insertion sort
  does); a list of items that are tied on every key is returned unchanged.
\<close>

theorem presentation_order_determined_when_transitive:
  "(transitive_on (compareAnnouncements now) announcements \<longrightarrow>
      stable_sorted_by (compareAnnouncements now) announcements
        (sortAnnouncementsByPriority now announcements userRole) \<and>
      (\<forall>ys. stable_sorted_by (compareAnnouncements now) announcements ys \<longrightarrow>
            ys = sortAnnouncementsByPriority now announcements userRole) \<and>
      array_sort_left (compareAnnouncements now) announcements =
        sortAnnouncementsByPriority now announcements userRole) \<and>
   ((\<forall>a \<in> set announcements. \<forall>b \<in> set announcements. compareAnnouncements now a b = 0) \<longrightarrow>
      sortAnnouncementsByPriority now announcements userRole = announcements)"
proof (intro conjI impI)
  note anti = compareAnnouncements_antisymmetric [of now]
  {
    assume t: "transitive_on (compareAnnouncements now) announcements"
    show s: "stable_sorted_by (compareAnnouncements now) announcements
        (sortAnnouncementsByPriority now announcements userRole)"
      unfolding sortAnnouncementsByPriority_def
      by (rule array_sort_stable_sorted_by [OF anti t])
    show "\<forall>ys. stable_sorted_by (compareAnnouncements now) announcements ys \<longrightarrow>
            ys = sortAnnouncementsByPriority now announcements userRole"
      using stable_sorted_by_unique [OF anti _ s] by blast
    show "array_sort_left (compareAnnouncements now) announcements =
        sortAnnouncementsByPriority now announcements userRole"
      by (rule stable_sorted_by_unique [OF anti array_sort_left_stable_sorted_by [OF anti t] s])
  }
  {
    assume tied: "\<forall>a \<in> set announcements. \<forall>b \<in> set announcements. compareAnnouncements now a b = 0"
    have "stable_sorted_by (compareAnnouncements now) announcements
        (sortAnnouncementsByPriority now announcements userRole)"
      unfolding sortAnnouncementsByPriority_def
      by (rule array_sort_stable_sorted_by [OF anti all_tied_transitive_on [OF tied]])
    from stable_sorted_by_unique [OF anti this all_tied_stable_sorted_by [OF tied]]
    show "sortAnnouncementsByPriority now announcements userRole = announcements" .
  }
qed

theorem presentation_order_determined_when_transitive_witness:
  "sortAnnouncementsByPriority 0 [tiedA, alertE, tiedB] student = [alertE, tiedA, tiedB] \<and>
   array_sort_left (compareAnnouncements 0) [tiedA, alertE, tiedB] = [alertE, tiedA, tiedB] \<and>
   sortAnnouncementsByPriority 0 [tiedB, tiedA] student = [tiedB, tiedA]"
proof -
  have h1: "transitive_on (compareAnnouncements 0) [tiedA, alertE, tiedB]" by code_simp
  have h2: "stable_sorted_by (compareAnnouncements 0) [tiedA, alertE, tiedB] [alertE, tiedA, tiedB]"
    by code_simp
  have h3: "\<forall>a \<in> set [tiedB, tiedA]. \<forall>b \<in> set [tiedB, tiedA]. compareAnnouncements 0 a b = 0"
    by code_simp
  note T = presentation_order_determined_when_transitive
  have a1: "stable_sorted_by (compareAnnouncements 0) [tiedA, alertE, tiedB]
        (sortAnnouncementsByPriority 0 [tiedA, alertE, tiedB] student) \<and>
      (\<forall>ys. stable_sorted_by (compareAnnouncements 0) [tiedA, alertE, tiedB] ys \<longrightarrow>
            ys = sortAnnouncementsByPriority 0 [tiedA, alertE, tiedB] student) \<and>
      array_sort_left (compareAnnouncements 0) [tiedA, alertE, tiedB] =
        sortAnnouncementsByPriority 0 [tiedA, alertE, tiedB] student"
    using h1 T [of 0 "[tiedA, alertE, tiedB]" student, THEN conjunct1] by (rule rev_mp)
  from a1 have "stable_sorted_by (compareAnnouncements 0) [tiedA, alertE, tiedB]
      [alertE, tiedA, tiedB] \<longrightarrow>
      [alertE, tiedA, tiedB] = sortAnnouncementsByPriority 0 [tiedA, alertE, tiedB] student"
    by (rule conjunct2 [THEN conjunct1, THEN spec])
  with h2 have a2: "sortAnnouncementsByPriority 0 [tiedA, alertE, tiedB] student =
      [alertE, tiedA, tiedB]"
    by simp
  have a3: "array_sort_left (compareAnnouncements 0) [tiedA, alertE, tiedB] = [alertE, tiedA, tiedB]"
    using a1 a2 by simp
  have a4: "sortAnnouncementsByPriority 0 [tiedB, tiedA] student = [tiedB, tiedA]"
    using h3 T [of 0 "[tiedB, tiedA]" student, THEN conjunct2] by (rule rev_mp)
  show ?thesis by (intro conjI a2 a3 a4)
qed

end
